theory Spec2Isabelle
  imports Main
begin

section \<open>PyCliTetris: the piece/grid simulation engine\<close>

text \<open>
  A shallow embedding of \<^verbatim>\<open>PyCliTetris.py\<close>. Python objects that are mutated in
  place become values that are passed in and returned; every exception the code can raise
  is a value of \<open>error\<close>. Python integers are unbounded, hence \<open>int\<close>.
\<close>

subsection \<open>Exceptions and list indexing\<close>

datatype error = IndexError | ValueError

text \<open>
  Python subscripts count from the end when they are negative: on a list of length \<open>n\<close> the
  subscript \<open>i\<close> with \<open>-n \<le> i < 0\<close> denotes position \<open>n + i\<close>; outside \<open>-n \<le> i < n\<close> the
  access raises IndexError. \<open>py_index n i\<close> is the position a subscript denotes.
\<close>

definition py_index :: "nat \<Rightarrow> int \<Rightarrow> error + nat" where
  "py_index n i =
     (if 0 \<le> i \<and> i < int n then Inr (nat i)
      else if - int n \<le> i \<and> i < 0 then Inr (nat (int n + i))
      else Inl IndexError)"

definition py_getitem :: "'a list \<Rightarrow> int \<Rightarrow> error + 'a" where
  "py_getitem xs i = (case py_index (length xs) i of Inl e \<Rightarrow> Inl e | Inr j \<Rightarrow> Inr (xs ! j))"

definition py_setitem :: "'a list \<Rightarrow> int \<Rightarrow> 'a \<Rightarrow> error + 'a list" where
  "py_setitem xs i v = (case py_index (length xs) i of Inl e \<Rightarrow> Inl e | Inr j \<Rightarrow> Inr (xs[j := v]))"

text \<open>\<^verbatim>\<open>list.pop(i)\<close>: the element taken out and the list that remains.\<close>

definition py_pop :: "'a list \<Rightarrow> int \<Rightarrow> error + 'a \<times> 'a list" where
  "py_pop xs i =
     (case py_index (length xs) i of
        Inl e \<Rightarrow> Inl e
      | Inr j \<Rightarrow> Inr (xs ! j, take j xs @ drop (Suc j) xs))"

subsection \<open>class Vector\<close>

datatype Vector = Vector (vx: int) (vy: int)

definition add_xy :: "Vector \<Rightarrow> int \<Rightarrow> int \<Rightarrow> Vector" where
  "add_xy v dx dy = Vector (vx v + dx) (vy v + dy)"

definition add_vector :: "Vector \<Rightarrow> Vector \<Rightarrow> Vector" where
  "add_vector v w = add_xy v (vx w) (vy w)"

definition add_x :: "Vector \<Rightarrow> int \<Rightarrow> Vector" where
  "add_x v dx = add_xy v dx 0"

definition add_y :: "Vector \<Rightarrow> int \<Rightarrow> Vector" where
  "add_y v dy = add_xy v 0 dy"

definition rotate90 :: "Vector \<Rightarrow> Vector \<Rightarrow> Vector" where
  "rotate90 v anchor =
     (let xRotated = vx v - vx anchor;
          yRotated = vy v - vy anchor;
          (xRotated, yRotated) = (- yRotated, xRotated);
          xRotated = xRotated + vx anchor;
          yRotated = yRotated + vy anchor
      in Vector xRotated yRotated)"

subsection \<open>class Vectors\<close>

text \<open>
  The field \<^verbatim>\<open>vectors\<close> is a list of \<open>Vector\<close>; a \<^verbatim>\<open>Vectors\<close> object is modelled by
  that list.
\<close>

definition translate_all :: "Vector list \<Rightarrow> Vector \<Rightarrow> Vector list" where
  "translate_all vectors translation = map (\<lambda>vector. add_vector vector translation) vectors"

text \<open>
  The loop of \<^verbatim>\<open>get_rotated90_around_anchor\<close>. The variable \<^verbatim>\<open>anchor\<close> starts as
  \<^verbatim>\<open>False\<close> (here \<open>None\<close>) and holds the first vector afterwards; a \<open>Vector\<close> object is
  always truthy, so \<^verbatim>\<open>not anchor\<close> holds exactly before the first iteration.
\<close>

fun rotate_loop :: "Vector option \<Rightarrow> Vector list \<Rightarrow> Vector list" where
  "rotate_loop anchor [] = []"
| "rotate_loop None (vector # vectors) = vector # rotate_loop (Some vector) vectors"
| "rotate_loop (Some anchor) (vector # vectors) =
     rotate90 vector anchor # rotate_loop (Some anchor) vectors"

definition get_rotated90_around_anchor :: "Vector list \<Rightarrow> Vector list" where
  "get_rotated90_around_anchor vectors = rotate_loop None vectors"

subsection \<open>class Color and class ColorChar\<close>

datatype Color = Color int int int

datatype ColorChar = ColorChar char Color Color

text \<open>
  \<^verbatim>\<open>int(a / b)\<close> on Python integers: true division followed by truncation towards zero.
  The floating-point quotient is exact enough for the truncation to be that of the rational
  quotient as long as the operands stay below \<open>2 ^ 50\<close> in absolute value; the program
  only builds colours with channels between 0 and 255.
\<close>

definition py_int_div :: "int \<Rightarrow> int \<Rightarrow> int" where
  "py_int_div a b = sgn a * sgn b * (\<bar>a\<bar> div \<bar>b\<bar>)"

fun shift_to_gray_Color :: "Color \<Rightarrow> Color" where
  "shift_to_gray_Color (Color r g b) =
     (let avg = py_int_div (r + g + b) 3;
          shift = min 255 (avg + 25)
      in Color (py_int_div (r + shift) 2) (py_int_div (g + shift) 2) (py_int_div (b + shift) 2))"

fun shift_to_gray :: "ColorChar \<Rightarrow> ColorChar" where
  "shift_to_gray (ColorChar c fgColor bgColor) =
     ColorChar c (shift_to_gray_Color fgColor) (shift_to_gray_Color bgColor)"

subsection \<open>class Score\<close>

text \<open>
  Only \<^verbatim>\<open>_value\<close> matters to the engine. \<open>Score_add\<close> returns the exception raised, if
  any, together with the object's state when the call ends.
\<close>

record Score =
  score_value :: int

definition Score_init :: Score where
  "Score_init = \<lparr>score_value = 0\<rparr>"

definition Score_add :: "int \<Rightarrow> Score \<Rightarrow> error option \<times> Score" where
  "Score_add lines s =
     (if lines = 4 then (None, s\<lparr>score_value := score_value s + 800\<rparr>)
      else if lines = 3 then (None, s\<lparr>score_value := score_value s + 500\<rparr>)
      else if lines = 2 then (None, s\<lparr>score_value := score_value s + 300\<rparr>)
      else if lines = 1 then (None, s\<lparr>score_value := score_value s + 100\<rparr>)
      else if lines = 0 then (None, s)
      else (Some ValueError, s))"

text \<open>A sequence of calls of \<^verbatim>\<open>add\<close>; the first exception ends it.\<close>

fun Score_add_all :: "int list \<Rightarrow> Score \<Rightarrow> error option \<times> Score" where
  "Score_add_all [] s = (None, s)"
| "Score_add_all (lines # rest) s =
     (case Score_add lines s of
        (Some e, s') \<Rightarrow> (Some e, s')
      | (None, s') \<Rightarrow> Score_add_all rest s')"

subsection \<open>class Playfield\<close>

text \<open>
  A cell of \<^verbatim>\<open>playfieldContent\<close> is either \<^verbatim>\<open>False\<close> (\<open>None\<close>) or the colour
  character of the piece that landed there (\<open>Some\<close>, truthy). The fields that only serve
  drawing (\<^verbatim>\<open>_screen\<close>, \<^verbatim>\<open>_location\<close>) are left out. The \<open>Score\<close> object is
  shared with the main loop, which only reads it; it is kept in the field \<open>score\<close>.
  \<open>psize\<close> is the field \<^verbatim>\<open>size\<close>: \<open>vx\<close> is the width, \<open>vy\<close> the height.
\<close>

type_synonym cell = "ColorChar option"

record Playfield =
  psize :: Vector
  playfieldContent :: "cell list list"
  topped_out :: bool
  score :: Score

definition emptyRowGenerator :: "Playfield \<Rightarrow> cell list" where
  "emptyRowGenerator pf = replicate (nat (vx (psize pf))) None"

definition Playfield_init :: "Score \<Rightarrow> Vector \<Rightarrow> Playfield" where
  "Playfield_init sc sz =
     \<lparr>psize = sz,
      playfieldContent = replicate (nat (vy sz)) (replicate (nat (vx sz)) None),
      topped_out = False,
      score = sc\<rparr>"

text \<open>\<^verbatim>\<open>content[y][x]\<close>, read and written with Python's subscripts.\<close>

definition cell_at :: "cell list list \<Rightarrow> int \<Rightarrow> int \<Rightarrow> error + cell" where
  "cell_at content y x =
     (case py_getitem content y of Inl e \<Rightarrow> Inl e | Inr row \<Rightarrow> py_getitem row x)"

definition set_cell :: "cell list list \<Rightarrow> int \<Rightarrow> int \<Rightarrow> cell \<Rightarrow> error + cell list list" where
  "set_cell content y x c =
     (case py_getitem content y of
        Inl e \<Rightarrow> Inl e
      | Inr row \<Rightarrow>
          (case py_setitem row x c of
             Inl e \<Rightarrow> Inl e
           | Inr row' \<Rightarrow> py_setitem content y row'))"

text \<open>
  First loop of \<^verbatim>\<open>land\<close>: every vector's cell is set to the colour character and its
  row is appended to \<^verbatim>\<open>rowsToScan\<close> unless it is there already.
\<close>

fun land_mark ::
  "Vector list \<Rightarrow> ColorChar \<Rightarrow> cell list list \<Rightarrow> int list \<Rightarrow> error + cell list list \<times> int list"
where
  "land_mark [] colorChar content rowsToScan = Inr (content, rowsToScan)"
| "land_mark (vector # vectors) colorChar content rowsToScan =
     (case set_cell content (vy vector) (vx vector) (Some colorChar) of
        Inl e \<Rightarrow> Inl e
      | Inr content' \<Rightarrow>
          land_mark vectors colorChar content'
            (if vy vector \<in> set rowsToScan then rowsToScan else rowsToScan @ [vy vector]))"

definition hitCount :: "cell list \<Rightarrow> int" where
  "hitCount row = int (length (filter (\<lambda>cell. cell \<noteq> None) row))"

text \<open>Second loop: the scanned rows with at least \<^verbatim>\<open>size.x\<close> truthy cells, in scan order.\<close>

fun land_scan :: "int \<Rightarrow> cell list list \<Rightarrow> int list \<Rightarrow> error + int list" where
  "land_scan width content [] = Inr []"
| "land_scan width content (rowToScan # rowsToScan) =
     (case py_getitem content rowToScan of
        Inl e \<Rightarrow> Inl e
      | Inr row \<Rightarrow>
          (case land_scan width content rowsToScan of
             Inl e \<Rightarrow> Inl e
           | Inr rowsToRemove \<Rightarrow>
               Inr (if hitCount row \<ge> width then rowToScan # rowsToRemove else rowsToRemove)))"

text \<open>Third loop, run on \<^verbatim>\<open>rowsToRemove[::-1]\<close>: one \<^verbatim>\<open>pop\<close> per row.\<close>

fun land_pop :: "int list \<Rightarrow> cell list list \<Rightarrow> error + cell list list" where
  "land_pop [] content = Inr content"
| "land_pop (rowToRemove # rowsToRemove) content =
     (case py_pop content rowToRemove of
        Inl e \<Rightarrow> Inl e
      | Inr (row, content') \<Rightarrow> land_pop rowsToRemove content')"

text \<open>Fourth loop: one \<^verbatim>\<open>insert(0, emptyRowGenerator())\<close> per removed row.\<close>

fun land_insert :: "cell list \<Rightarrow> int list \<Rightarrow> cell list list \<Rightarrow> cell list list" where
  "land_insert emptyRow [] content = content"
| "land_insert emptyRow (rowToRemove # rowsToRemove) content =
     land_insert emptyRow rowsToRemove (emptyRow # content)"

text \<open>
  The rows that \<^verbatim>\<open>land\<close> decides to remove (the value of \<^verbatim>\<open>rowsToRemove\<close> after the
  second loop), and the content after the first loop.
\<close>

definition land_marked :: "Vector list \<Rightarrow> ColorChar \<Rightarrow> Playfield \<Rightarrow> error + cell list list" where
  "land_marked vectors colorChar pf =
     (case land_mark vectors (shift_to_gray colorChar) (playfieldContent pf) [] of
        Inl e \<Rightarrow> Inl e
      | Inr (content, rowsToScan) \<Rightarrow> Inr content)"

definition land_rowsToRemove :: "Vector list \<Rightarrow> ColorChar \<Rightarrow> Playfield \<Rightarrow> error + int list" where
  "land_rowsToRemove vectors colorChar pf =
     (case land_mark vectors (shift_to_gray colorChar) (playfieldContent pf) [] of
        Inl e \<Rightarrow> Inl e
      | Inr (content, rowsToScan) \<Rightarrow> land_scan (vx (psize pf)) content (sort rowsToScan))"

definition land :: "Vector list \<Rightarrow> ColorChar \<Rightarrow> Playfield \<Rightarrow> error + Playfield" where
  "land vectors colorChar pf =
     (case land_mark vectors (shift_to_gray colorChar) (playfieldContent pf) [] of
        Inl e \<Rightarrow> Inl e
      | Inr (content, rowsToScan) \<Rightarrow>
          (case land_scan (vx (psize pf)) content (sort rowsToScan) of
             Inl e \<Rightarrow> Inl e
           | Inr rowsToRemove \<Rightarrow>
               (case land_pop (rev rowsToRemove) content of
                  Inl e \<Rightarrow> Inl e
                | Inr popped \<Rightarrow>
                    (case land_insert (emptyRowGenerator pf) rowsToRemove popped of
                       [] \<Rightarrow> Inl IndexError
                     | topRow # rows \<Rightarrow>
                         (case Score_add (int (length rowsToRemove)) (score pf) of
                            (Some e, sc) \<Rightarrow> Inl e
                          | (None, sc) \<Rightarrow>
                              Inr (pf\<lparr>playfieldContent := topRow # rows,
                                      topped_out :=
                                        (topped_out pf \<or> list_ex (\<lambda>topRowCell. topRowCell \<noteq> None) topRow),
                                      score := sc\<rparr>))))))"

subsection \<open>class InputController\<close>

text \<open>
  The dictionary \<^verbatim>\<open>_keys\<close> has the four fixed keys "left", "right", "up" and "down";
  it is a record of their values (0 released, 1 pressed and not yet taken, 2 taken).
\<close>

record InputController =
  key_left :: int
  key_right :: int
  key_up :: int
  key_down :: int

definition InputController_init :: InputController where
  "InputController_init = \<lparr>key_left = 0, key_right = 0, key_up = 0, key_down = 0\<rparr>"

definition take_dx :: "InputController \<Rightarrow> int \<times> InputController" where
  "take_dx ic =
     (let dx = 0;
          (dx, ic) = (if key_left ic = 1 then (dx - 1, ic\<lparr>key_left := 2\<rparr>) else (dx, ic));
          (dx, ic) = (if key_right ic = 1 then (dx + 1, ic\<lparr>key_right := 2\<rparr>) else (dx, ic))
      in (dx, ic))"

definition take_up :: "InputController \<Rightarrow> bool \<times> InputController" where
  "take_up ic = (if key_up ic = 1 then (True, ic\<lparr>key_up := 2\<rparr>) else (False, ic))"

definition take_down :: "InputController \<Rightarrow> bool \<times> InputController" where
  "take_down ic = (if key_down ic = 1 then (True, ic\<lparr>key_down := 2\<rparr>) else (False, ic))"

text \<open>
  \<^verbatim>\<open>update\<close> polls the keyboard; \<open>pressed\<close> is what \<^verbatim>\<open>is_pressed\<close> answers for the
  four keys, in the order left, right, up, down. A key that is pressed stays pressed for
  both loops of one call in this model.
\<close>

definition update_key :: "bool \<Rightarrow> int \<Rightarrow> int" where
  "update_key pressed k =
     (let k = (if pressed \<and> k = 0 then 1 else k)
      in if \<not> pressed \<and> k = 2 then 0 else k)"

definition InputController_update :: "bool \<times> bool \<times> bool \<times> bool \<Rightarrow> InputController \<Rightarrow> InputController" where
  "InputController_update pressed ic =
     (case pressed of (l, r, u, d) \<Rightarrow>
        \<lparr>key_left = update_key l (key_left ic), key_right = update_key r (key_right ic),
         key_up = update_key u (key_up ic), key_down = update_key d (key_down ic)\<rparr>)"

subsection \<open>class Tetromino and its seven subclasses\<close>

datatype Kind = KI | KJ | KL | KO | KS | KZ | KT

text \<open>
  A piece: the subclass it is an instance of, its \<^verbatim>\<open>_position.vectors\<close> and its
  \<^verbatim>\<open>landed\<close> flag. The playfield it refers to is passed to every operation and returned
  by those that change it.
\<close>

record Tetromino =
  kind :: Kind
  position :: "Vector list"
  landed :: bool

fun color_char :: "Kind \<Rightarrow> ColorChar" where
  "color_char KI = ColorChar (CHR '' '') (Color 255 255 255) (Color 173 216 230)"
| "color_char KJ = ColorChar (CHR '' '') (Color 255 255 255) (Color 0 0 139)"
| "color_char KL = ColorChar (CHR '' '') (Color 255 255 255) (Color 255 165 0)"
| "color_char KO = ColorChar (CHR '' '') (Color 255 255 255) (Color 255 255 0)"
| "color_char KS = ColorChar (CHR '' '') (Color 255 255 255) (Color 0 173 67)"
| "color_char KZ = ColorChar (CHR '' '') (Color 255 255 255) (Color 255 0 0)"
| "color_char KT = ColorChar (CHR '' '') (Color 255 255 255) (Color 208 65 126)"

text \<open>The constructors: the anchor comes first in every position.\<close>

definition Tetromino_I :: "Playfield \<Rightarrow> Tetromino" where
  "Tetromino_I pf =
     (let anchor = Vector (py_int_div (vx (psize pf)) 2) 2
      in \<lparr>kind = KI,
          position = [anchor, add_xy anchor 0 (- 2), add_xy anchor 0 (- 1), add_xy anchor 0 1],
          landed = False\<rparr>)"

definition Tetromino_J :: "Playfield \<Rightarrow> Tetromino" where
  "Tetromino_J pf =
     (let anchor = Vector (py_int_div (vx (psize pf)) 2) 0
      in \<lparr>kind = KJ,
          position = [anchor, add_xy anchor (- 1) 0, add_xy anchor 1 0, add_xy anchor 1 1],
          landed = False\<rparr>)"

definition Tetromino_L :: "Playfield \<Rightarrow> Tetromino" where
  "Tetromino_L pf =
     (let anchor = Vector (py_int_div (vx (psize pf)) 2) 1
      in \<lparr>kind = KL,
          position = [anchor, add_xy anchor (- 1) 0, add_xy anchor 1 0, add_xy anchor 1 (- 1)],
          landed = False\<rparr>)"

definition Tetromino_O :: "Playfield \<Rightarrow> Tetromino" where
  "Tetromino_O pf =
     (let anchor = Vector (py_int_div (vx (psize pf)) 2) 0
      in \<lparr>kind = KO,
          position = [anchor, add_xy anchor 1 0, add_xy anchor 0 1, add_xy anchor 1 1],
          landed = False\<rparr>)"

definition Tetromino_S :: "Playfield \<Rightarrow> Tetromino" where
  "Tetromino_S pf =
     (let anchor = Vector (py_int_div (vx (psize pf)) 2) 0
      in \<lparr>kind = KS,
          position = [anchor, add_xy anchor (- 1) 1, add_xy anchor 0 1, add_xy anchor 1 0],
          landed = False\<rparr>)"

definition Tetromino_Z :: "Playfield \<Rightarrow> Tetromino" where
  "Tetromino_Z pf =
     (let anchor = Vector (py_int_div (vx (psize pf)) 2) 0
      in \<lparr>kind = KZ,
          position = [anchor, add_xy anchor (- 1) 0, add_xy anchor 0 1, add_xy anchor 1 1],
          landed = False\<rparr>)"

definition Tetromino_T :: "Playfield \<Rightarrow> Tetromino" where
  "Tetromino_T pf =
     (let anchor = Vector (py_int_div (vx (psize pf)) 2) 1
      in \<lparr>kind = KT,
          position = [anchor, add_xy anchor (- 1) 0, add_xy anchor 0 (- 1), add_xy anchor 1 0],
          landed = False\<rparr>)"

text \<open>
  The loop of \<^verbatim>\<open>_move_horizontally\<close>: \<open>Inr True\<close> when some block makes the method
  return early, \<open>Inr False\<close> when the loop runs to its end. The \<^verbatim>\<open>or\<close> chain is
  evaluated left to right, so the grid is read only for an \<open>xNew\<close> inside the width.
\<close>

fun move_blocked :: "Playfield \<Rightarrow> int \<Rightarrow> Vector list \<Rightarrow> error + bool" where
  "move_blocked pf dx [] = Inr False"
| "move_blocked pf dx (block # blocks) =
     (let xNew = vx block + dx
      in if xNew \<ge> vx (psize pf) \<or> xNew < 0 then Inr True
         else (case cell_at (playfieldContent pf) (vy block) xNew of
                 Inl e \<Rightarrow> Inl e
               | Inr c \<Rightarrow> if c \<noteq> None then Inr True else move_blocked pf dx blocks))"

definition Tetromino_move_horizontally :: "int \<Rightarrow> Tetromino \<Rightarrow> Playfield \<Rightarrow> error + Tetromino" where
  "Tetromino_move_horizontally dx t pf =
     (case move_blocked pf dx (position t) of
        Inl e \<Rightarrow> Inl e
      | Inr True \<Rightarrow> Inr t
      | Inr False \<Rightarrow> Inr (t\<lparr>position := translate_all (position t) (Vector dx 0)\<rparr>))"

text \<open>The loop of \<^verbatim>\<open>_rotate\<close>, over the rotated blocks.\<close>

fun rotate_blocked :: "Playfield \<Rightarrow> Vector list \<Rightarrow> error + bool" where
  "rotate_blocked pf [] = Inr False"
| "rotate_blocked pf (block # blocks) =
     (if vx block \<ge> vx (psize pf) \<or> vx block < 0 then Inr True
      else (case cell_at (playfieldContent pf) (vy block) (vx block) of
              Inl e \<Rightarrow> Inl e
            | Inr c \<Rightarrow> if c \<noteq> None then Inr True else rotate_blocked pf blocks))"

text \<open>\<^verbatim>\<open>Tetromino_O\<close> overrides \<^verbatim>\<open>_rotate\<close> with \<^verbatim>\<open>pass\<close>.\<close>

definition Tetromino_rotate :: "Tetromino \<Rightarrow> Playfield \<Rightarrow> error + Tetromino" where
  "Tetromino_rotate t pf =
     (if kind t = KO then Inr t
      else
        (let rotated = get_rotated90_around_anchor (position t)
         in case rotate_blocked pf rotated of
              Inl e \<Rightarrow> Inl e
            | Inr True \<Rightarrow> Inr t
            | Inr False \<Rightarrow> Inr (t\<lparr>position := rotated\<rparr>)))"

text \<open>The loop of \<^verbatim>\<open>_do_gravity\<close>.\<close>

fun gravity_blocked :: "Playfield \<Rightarrow> Vector list \<Rightarrow> error + bool" where
  "gravity_blocked pf [] = Inr False"
| "gravity_blocked pf (block # blocks) =
     (if vy block + 1 \<ge> vy (psize pf) then Inr True
      else (case cell_at (playfieldContent pf) (vy block + 1) (vx block) of
              Inl e \<Rightarrow> Inl e
            | Inr c \<Rightarrow> if c \<noteq> None then Inr True else gravity_blocked pf blocks))"

definition Tetromino_do_gravity :: "Tetromino \<Rightarrow> Playfield \<Rightarrow> error + Tetromino \<times> Playfield" where
  "Tetromino_do_gravity t pf =
     (if landed t then Inr (t, pf)
      else
        (case gravity_blocked pf (position t) of
           Inl e \<Rightarrow> Inl e
         | Inr True \<Rightarrow>
             (case land (position t) (color_char (kind t)) pf of
                Inl e \<Rightarrow> Inl e
              | Inr pf' \<Rightarrow> Inr (t\<lparr>landed := True\<rparr>, pf'))
         | Inr False \<Rightarrow> Inr (t\<lparr>position := translate_all (position t) (Vector 0 1)\<rparr>, pf)))"

text \<open>
  \<^verbatim>\<open>_drop\<close> is a \<^verbatim>\<open>while\<close> loop with no bound of its own: the result is \<open>None\<close> when
  the loop never ends, \<open>Some (Inl e)\<close> when an exception leaves it, and \<open>Some (Inr _)\<close>
  when it ends normally.
\<close>

partial_function (option) Tetromino_drop ::
  "Tetromino \<Rightarrow> Playfield \<Rightarrow> (error + Tetromino \<times> Playfield) option"
where
  "Tetromino_drop t pf =
     (if landed t then Some (Inr (t, pf))
      else
        (case Tetromino_do_gravity t pf of
           Inl e \<Rightarrow> Some (Inl e)
         | Inr (t', pf') \<Rightarrow> Tetromino_drop t' pf'))"

definition Tetromino_process ::
  "bool \<Rightarrow> InputController \<Rightarrow> Tetromino \<Rightarrow> Playfield
     \<Rightarrow> (error + InputController \<times> Tetromino \<times> Playfield) option"
where
  "Tetromino_process should_do_gravity ic t pf =
     (if landed t then Some (Inr (ic, t, pf))
      else
        (case take_dx ic of (dx, ic1) \<Rightarrow>
           (case Tetromino_move_horizontally dx t pf of
              Inl e \<Rightarrow> Some (Inl e)
            | Inr t1 \<Rightarrow>
                (case take_up ic1 of (up, ic2) \<Rightarrow>
                   (case (if up then Tetromino_rotate t1 pf else Inr t1) of
                      Inl e \<Rightarrow> Some (Inl e)
                    | Inr t2 \<Rightarrow>
                        (case take_down ic2 of (down, ic3) \<Rightarrow>
                           if down then
                             (case Tetromino_drop t2 pf of
                                None \<Rightarrow> None
                              | Some (Inl e) \<Rightarrow> Some (Inl e)
                              | Some (Inr (t3, pf3)) \<Rightarrow> Some (Inr (ic3, t3, pf3)))
                           else if should_do_gravity then
                             (case Tetromino_do_gravity t2 pf of
                                Inl e \<Rightarrow> Some (Inl e)
                              | Inr (t3, pf3) \<Rightarrow> Some (Inr (ic3, t3, pf3)))
                           else Some (Inr (ic3, t2, pf))))))))"

subsection \<open>class SevenBag\<close>

definition new_bag :: "Playfield \<Rightarrow> Tetromino list" where
  "new_bag pf =
     [Tetromino_I pf, Tetromino_J pf, Tetromino_L pf, Tetromino_O pf, Tetromino_S pf,
      Tetromino_Z pf, Tetromino_T pf]"

text \<open>
  \<^verbatim>\<open>randrange(0, n)\<close> raises ValueError when \<open>n\<close> is 0 and returns some \<open>i\<close> with
  \<open>0 \<le> i < n\<close> otherwise. The number it returns is the argument \<open>tetrominoIndex\<close> of
  \<open>get_tetromino\<close>; \<open>randrange_returns n i\<close> says that \<open>i\<close> is a possible result.
\<close>

definition randrange_returns :: "nat \<Rightarrow> int \<Rightarrow> bool" where
  "randrange_returns n i = (0 \<le> i \<and> i < int n)"

definition get_tetromino ::
  "int \<Rightarrow> Playfield \<Rightarrow> Tetromino list \<Rightarrow> error + Tetromino \<times> Tetromino list"
where
  "get_tetromino tetrominoIndex pf bag =
     (if bag = [] then Inl ValueError
      else
        (case py_pop bag tetrominoIndex of
           Inl e \<Rightarrow> Inl e
         | Inr (tetromino, bag') \<Rightarrow> Inr (tetromino, if bag' = [] then new_bag pf else bag')))"

text \<open>
  A run of draws, one random number per draw: the pieces drawn, in order, and the bag
  that is left.
\<close>

fun draws ::
  "int list \<Rightarrow> Playfield \<Rightarrow> Tetromino list \<Rightarrow> error + Tetromino list \<times> Tetromino list"
where
  "draws [] pf bag = Inr ([], bag)"
| "draws (i # is) pf bag =
     (case get_tetromino i pf bag of
        Inl e \<Rightarrow> Inl e
      | Inr (tetromino, bag') \<Rightarrow>
          (case draws is pf bag' of
             Inl e \<Rightarrow> Inl e
           | Inr (tetrominos, bag'') \<Rightarrow> Inr (tetromino # tetrominos, bag'')))"

text \<open>Every number of the run is one that \<^verbatim>\<open>randrange\<close> can return at its draw.\<close>

fun random_choices :: "int list \<Rightarrow> Playfield \<Rightarrow> Tetromino list \<Rightarrow> bool" where
  "random_choices [] pf bag = True"
| "random_choices (i # is) pf bag =
     (randrange_returns (length bag) i \<and>
      (case get_tetromino i pf bag of
         Inl e \<Rightarrow> False
       | Inr (tetromino, bag') \<Rightarrow> random_choices is pf bag'))"

subsection \<open>The main loop\<close>

record Game =
  playfield :: Playfield
  tetromino :: Tetromino
  bag :: "Tetromino list"
  inputController :: InputController

text \<open>
  The state with which \<^verbatim>\<open>main\<close> enters its loop: a 10 by 20 playfield, a fresh bag and
  the first piece drawn from it.
\<close>

definition main_playfield :: Playfield where
  "main_playfield = Playfield_init Score_init (Vector 10 20)"

definition Game_init :: "int \<Rightarrow> error + Game" where
  "Game_init tetrominoIndex =
     (let pf = main_playfield
      in case get_tetromino tetrominoIndex pf (new_bag pf) of
           Inl e \<Rightarrow> Inl e
         | Inr (t, bag') \<Rightarrow>
             Inr \<lparr>playfield = pf, tetromino = t, bag = bag',
                  inputController = InputController_init\<rparr>)"

text \<open>
  One iteration of the loop, drawing left out. Its inputs are what the timer, the random
  number generator and the keyboard answer. The result carries the flag that tells whether
  the loop was left by \<^verbatim>\<open>break\<close> (game over).
\<close>

definition main_iteration ::
  "bool \<Rightarrow> int \<Rightarrow> bool \<times> bool \<times> bool \<times> bool \<Rightarrow> Game \<Rightarrow> (error + Game \<times> bool) option"
where
  "main_iteration should_do_gravity tetrominoIndex pressed s =
     (case Tetromino_process should_do_gravity (inputController s) (tetromino s) (playfield s) of
        None \<Rightarrow> None
      | Some (Inl e) \<Rightarrow> Some (Inl e)
      | Some (Inr (ic, t, pf)) \<Rightarrow>
          if landed t then
            (if topped_out pf then
               Some (Inr (s\<lparr>playfield := pf, tetromino := t, inputController := ic\<rparr>, True))
             else
               (case get_tetromino tetrominoIndex pf (bag s) of
                  Inl e \<Rightarrow> Some (Inl e)
                | Inr (t', bag') \<Rightarrow>
                    Some (Inr (\<lparr>playfield = pf, tetromino = t', bag = bag',
                                inputController = InputController_update pressed ic\<rparr>, False))))
          else
            Some (Inr (s\<lparr>playfield := pf, tetromino := t,
                         inputController := InputController_update pressed ic\<rparr>, False)))"

text \<open>
  The step relation of the engine: a step is one call of an operation that can change the
  playfield, or one whole iteration of the main loop.
\<close>

inductive step :: "Game \<Rightarrow> Game \<Rightarrow> bool" where
  step_land:
    "land vectors colorChar (playfield s) = Inr pf' \<Longrightarrow> step s (s\<lparr>playfield := pf'\<rparr>)"
| step_process:
    "Tetromino_process should_do_gravity (inputController s) (tetromino s) (playfield s)
       = Some (Inr (ic', t', pf'))
     \<Longrightarrow> step s (s\<lparr>playfield := pf', tetromino := t', inputController := ic'\<rparr>)"
| step_get_tetromino:
    "get_tetromino tetrominoIndex (playfield s) (bag s) = Inr (t', bag')
     \<Longrightarrow> step s (s\<lparr>tetromino := t', bag := bag'\<rparr>)"
| step_update:
    "step s (s\<lparr>inputController := InputController_update pressed (inputController s)\<rparr>)"
| step_main:
    "main_iteration should_do_gravity tetrominoIndex pressed s = Some (Inr (s', game_over))
     \<Longrightarrow> step s s'"

subsection \<open>Command sequences\<close>

text \<open>\<open>n\<close> rotate commands in a row; the first exception ends the run.\<close>

fun rotate_commands :: "nat \<Rightarrow> Tetromino \<Rightarrow> Playfield \<Rightarrow> error + Tetromino" where
  "rotate_commands 0 t pf = Inr t"
| "rotate_commands (Suc n) t pf =
     (case Tetromino_rotate t pf of Inl e \<Rightarrow> Inl e | Inr t' \<Rightarrow> rotate_commands n t' pf)"

subsection \<open>Well-formed playfields and cells inside the grid\<close>

text \<open>
  The shape \<^verbatim>\<open>Playfield.__init__\<close> gives the grid: \<^verbatim>\<open>size.y\<close> rows of
  \<^verbatim>\<open>size.x\<close> cells each; and the cells of a vector list that lie inside the grid.
\<close>

definition well_formed :: "Playfield \<Rightarrow> bool" where
  "well_formed pf =
     (length (playfieldContent pf) = nat (vy (psize pf)) \<and>
      list_all (\<lambda>row. length row = nat (vx (psize pf))) (playfieldContent pf))"

definition in_grid :: "Playfield \<Rightarrow> Vector \<Rightarrow> bool" where
  "in_grid pf v = (0 \<le> vx v \<and> vx v < vx (psize pf) \<and> 0 \<le> vy v \<and> vy v < vy (psize pf))"

text \<open>A full bottom row of the 10 by 20 playfield of \<^verbatim>\<open>main\<close>.\<close>

definition bottom_row :: "Vector list" where
  "bottom_row = [Vector 0 19, Vector 1 19, Vector 2 19, Vector 3 19, Vector 4 19,
                 Vector 5 19, Vector 6 19, Vector 7 19, Vector 8 19, Vector 9 19]"

subsection \<open>Cells of a falling piece\<close>

text \<open>
  \<open>falling_cell\<close>: a cell inside the columns of the grid and at most one row above its
  top, so that the row below it is row 0 or lower and \<^verbatim>\<open>_do_gravity\<close> reads the cell it
  means. \<open>blocked_below\<close>: moving the cell down one row would reach or exceed the grid
  height, or the cell below it is occupied.
\<close>

definition falling_cell :: "Playfield \<Rightarrow> Vector \<Rightarrow> bool" where
  "falling_cell pf b = (0 \<le> vx b \<and> vx b < vx (psize pf) \<and> - 1 \<le> vy b)"

definition blocked_below :: "Playfield \<Rightarrow> Vector \<Rightarrow> bool" where
  "blocked_below pf b =
     (vy b + 1 \<ge> vy (psize pf) \<or> playfieldContent pf ! nat (vy b + 1) ! nat (vx b) \<noteq> None)"

text \<open>An O piece lying on the floor of the playfield of \<^verbatim>\<open>main\<close>.\<close>

definition O_at_bottom :: Tetromino where
  "O_at_bottom =
     \<lparr>kind = KO, position = [Vector 5 18, Vector 6 18, Vector 5 19, Vector 6 19],
      landed = False\<rparr>"

subsection \<open>The per-tick contract\<close>

text \<open>\<open>n\<close> gravity steps in a row; the first exception ends the run.\<close>

fun gravity_steps :: "nat \<Rightarrow> Tetromino \<Rightarrow> Playfield \<Rightarrow> error + Tetromino \<times> Playfield" where
  "gravity_steps 0 t pf = Inr (t, pf)"
| "gravity_steps (Suc n) t pf =
     (case Tetromino_do_gravity t pf of
        Inl e \<Rightarrow> Inl e
      | Inr (t', pf') \<Rightarrow> gravity_steps n t' pf')"

text \<open>
  The contract of one tick in the words of the design: given the three commands, (1) a
  landed piece is left alone; otherwise (2) the horizontal move, (3) the rotation if
  requested, (4) the hard drop if requested, which ends the tick, (5) otherwise one gravity
  step if gravity is due.
\<close>

definition process_spec ::
  "bool \<Rightarrow> int \<Rightarrow> bool \<Rightarrow> bool \<Rightarrow> Tetromino \<Rightarrow> Playfield
     \<Rightarrow> (error + Tetromino \<times> Playfield) option"
where
  "process_spec gravityDue dx rotateCmd dropCmd t pf =
     (if landed t then Some (Inr (t, pf))
      else
        (case Tetromino_move_horizontally dx t pf of
           Inl e \<Rightarrow> Some (Inl e)
         | Inr t1 \<Rightarrow>
             (case (if rotateCmd then Tetromino_rotate t1 pf else Inr t1) of
                Inl e \<Rightarrow> Some (Inl e)
              | Inr t2 \<Rightarrow>
                  if dropCmd then Tetromino_drop t2 pf
                  else if gravityDue then Some (Tetromino_do_gravity t2 pf)
                  else Some (Inr (t2, pf)))))"

text \<open>The input controller after the three commands have been taken from it.\<close>

definition commands_taken :: "InputController \<Rightarrow> InputController" where
  "commands_taken ic = snd (take_down (snd (take_up (snd (take_dx ic)))))"

text \<open>
  A tick with left, up and down pressed on the first J piece of an empty playfield: the
  piece after the move and the rotation, and after the drop.
\<close>

definition all_keys_pressed :: InputController where
  "all_keys_pressed = \<lparr>key_left = 1, key_right = 0, key_up = 1, key_down = 1\<rparr>"

definition J_moved_rotated :: Tetromino where
  "J_moved_rotated =
     \<lparr>kind = KJ, position = [Vector 4 0, Vector 4 (- 1), Vector 4 1, Vector 3 1], landed = False\<rparr>"

definition J_dropped :: Tetromino where
  "J_dropped =
     \<lparr>kind = KJ, position = [Vector 4 18, Vector 4 17, Vector 4 19, Vector 3 19], landed = True\<rparr>"

subsection \<open>A topped-out playfield\<close>

text \<open>
  The playfield of \<^verbatim>\<open>main\<close> after a cell landed in its top row, the same after a
  full bottom row was then cleared, and a game on the former.
\<close>

definition topped_playfield :: Playfield where
  "topped_playfield =
     main_playfield
       \<lparr>playfieldContent :=
          (replicate 10 None)[0 := Some (shift_to_gray (color_char KI))]
            # replicate 19 (replicate 10 None),
        topped_out := True\<rparr>"

definition cleared_playfield :: Playfield where
  "cleared_playfield =
     main_playfield
       \<lparr>playfieldContent :=
          replicate 10 None
            # (replicate 10 None)[0 := Some (shift_to_gray (color_char KI))]
            # replicate 18 (replicate 10 None),
        topped_out := True,
        score := \<lparr>score_value = 100\<rparr>\<rparr>"

definition topped_game :: Game where
  "topped_game =
     \<lparr>playfield = topped_playfield, tetromino = Tetromino_O main_playfield,
      bag = new_bag main_playfield, inputController = InputController_init\<rparr>"

subsection \<open>A piece overhanging the top\<close>

text \<open>
  The first I piece of a game after a hard drop at its spawn column, and the playfield it
  leaves; the next J piece rotated at spawn (its second cell is in row -1), moved left, and
  an I piece lying flat on the floor.
\<close>

definition I_dropped :: Tetromino where
  "I_dropped =
     \<lparr>kind = KI, position = [Vector 5 18, Vector 5 16, Vector 5 17, Vector 5 19], landed = True\<rparr>"

definition I_column :: Playfield where
  "I_column =
     main_playfield
       \<lparr>playfieldContent :=
          replicate 16 (replicate 10 None)
            @ replicate 4 ((replicate 10 None)[5 := Some (shift_to_gray (color_char KI))])\<rparr>"

definition J_rotated :: Tetromino where
  "J_rotated =
     \<lparr>kind = KJ, position = [Vector 5 0, Vector 5 (- 1), Vector 5 1, Vector 4 1], landed = False\<rparr>"

definition J_moved :: Tetromino where
  "J_moved =
     \<lparr>kind = KJ, position = [Vector 4 0, Vector 3 0, Vector 5 0, Vector 5 1], landed = False\<rparr>"

definition I_flat_on_floor :: Tetromino where
  "I_flat_on_floor =
     \<lparr>kind = KI, position = [Vector 5 19, Vector 7 19, Vector 6 19, Vector 4 19], landed = False\<rparr>"

subsection \<open>Landing with a cell above the top\<close>

text \<open>
  Playfields of the size of \<^verbatim>\<open>main\<close>: column 3 occupied from row 2 down; the same
  after the J piece at \<open>(4, 0)\<close>, \<open>(4, -1)\<close>, \<open>(4, 1)\<close>, \<open>(3, 1)\<close> landed on it; column
  3 occupied from row 2 down and the bottom row full but for column 4; the same after that
  piece landed on it. A 2 by 3 playfield with two cells of column 0 occupied. The playfield
  of \<^verbatim>\<open>main\<close> after an O piece landed on its floor.
\<close>

definition stack_playfield :: Playfield where
  "stack_playfield =
     main_playfield
       \<lparr>playfieldContent :=
          replicate 2 (replicate 10 None)
            @ replicate 18 ((replicate 10 None)[3 := Some (shift_to_gray (color_char KI))])\<rparr>"

definition stack_landed_playfield :: Playfield where
  "stack_landed_playfield =
     main_playfield
       \<lparr>playfieldContent :=
          [(replicate 10 None)[4 := Some (shift_to_gray (color_char KJ))],
           (replicate 10 None)[3 := Some (shift_to_gray (color_char KJ)),
                               4 := Some (shift_to_gray (color_char KJ))]]
            @ replicate 17 ((replicate 10 None)[3 := Some (shift_to_gray (color_char KI))])
            @ [(replicate 10 None)[3 := Some (shift_to_gray (color_char KI)),
                                   4 := Some (shift_to_gray (color_char KJ))]],
        topped_out := True\<rparr>"

definition nearly_full_playfield :: Playfield where
  "nearly_full_playfield =
     main_playfield
       \<lparr>playfieldContent :=
          replicate 2 (replicate 10 None)
            @ replicate 17 ((replicate 10 None)[3 := Some (shift_to_gray (color_char KI))])
            @ [(replicate 10 (Some (shift_to_gray (color_char KI))))[4 := None]]\<rparr>"

definition cleared_from_top_playfield :: Playfield where
  "cleared_from_top_playfield =
     main_playfield
       \<lparr>playfieldContent :=
          [replicate 10 None,
           (replicate 10 None)[4 := Some (shift_to_gray (color_char KJ))],
           (replicate 10 None)[3 := Some (shift_to_gray (color_char KJ)),
                               4 := Some (shift_to_gray (color_char KJ))]]
            @ replicate 17 ((replicate 10 None)[3 := Some (shift_to_gray (color_char KI))]),
        score := \<lparr>score_value = 100\<rparr>\<rparr>"

definition small_playfield :: Playfield where
  "small_playfield =
     (Playfield_init Score_init (Vector 2 3))
       \<lparr>playfieldContent :=
          [[None, None],
           [Some (shift_to_gray (color_char KI)), None],
           [Some (shift_to_gray (color_char KI)), None]]\<rparr>"

definition O_landed_playfield :: Playfield where
  "O_landed_playfield =
     main_playfield
       \<lparr>playfieldContent :=
          replicate 18 (replicate 10 None)
            @ replicate 2 ((replicate 10 None)[5 := Some (shift_to_gray (color_char KO)),
                                               6 := Some (shift_to_gray (color_char KO))])\<rparr>"

section \<open>Verified properties\<close>

subsection \<open>Rotation\<close>

lemma rotate_loop_Some: "rotate_loop (Some a) vs = map (\<lambda>p. rotate90 p a) vs"
  by (induction vs) simp_all

lemma get_rotated90_Cons:
  "get_rotated90_around_anchor (a # ps) = a # map (\<lambda>p. rotate90 p a) ps"
  by (simp add: get_rotated90_around_anchor_def rotate_loop_Some)

lemma get_rotated90_Nil: "get_rotated90_around_anchor [] = []"
  by (simp add: get_rotated90_around_anchor_def)

lemma rotate90_eq: "rotate90 v a = Vector (- (vy v - vy a) + vx a) ((vx v - vx a) + vy a)"
  by (simp add: rotate90_def)

lemma length_get_rotated90: "length (get_rotated90_around_anchor vs) = length vs"
  by (cases vs) (simp_all add: get_rotated90_Nil get_rotated90_Cons)

text \<open>
  Claim C7. \<open>rotate90\<close> computes \<open>(x', y') = (-(y - ay) + ax, (x - ax) + ay)\<close> for every
  point and anchor. The rotation of a point list keeps its first element, the anchor, maps
  every other point through that formula about the anchor at the same place of the list, so
  order and number of the points are kept, and it leaves a one-point list as it is.
\<close>

theorem rotate90_formula_and_point_set:
  "rotate90 (Vector x y) (Vector ax ay) = Vector (- (y - ay) + ax) ((x - ax) + ay)
   \<and> get_rotated90_around_anchor (a # ps) = a # map (\<lambda>p. rotate90 p a) ps
   \<and> length (get_rotated90_around_anchor vs) = length vs
   \<and> get_rotated90_around_anchor [a] = [a]"
  by (simp add: rotate90_eq get_rotated90_Cons length_get_rotated90)

lemma rotate90_four: "rotate90 (rotate90 (rotate90 (rotate90 v a) a) a) a = v"
  by (cases v) (simp add: rotate90_eq)

lemma get_rotated90_four: "(get_rotated90_around_anchor ^^ 4) vs = vs"
proof (cases vs)
  case Nil
  then show ?thesis by (simp add: numeral_eq_Suc get_rotated90_Nil)
next
  case (Cons a ps)
  have "map (\<lambda>p. rotate90 (rotate90 (rotate90 (rotate90 p a) a) a) a) ps = ps"
    by (simp add: rotate90_four)
  with Cons show ?thesis
    by (simp add: numeral_eq_Suc get_rotated90_Cons comp_def)
qed

lemma rotate_KO: "kind t = KO \<Longrightarrow> Tetromino_rotate t pf = Inr t"
  by (simp add: Tetromino_rotate_def)

lemma rotate_commands_KO: "kind t = KO \<Longrightarrow> rotate_commands n t pf = Inr t"
  by (induction n) (simp_all add: rotate_KO)

text \<open>
  Claim C8. Four rotations about the anchor give back any point list. A piece of kind O
  is returned unchanged by its rotate operation, and so by any number \<open>n\<close> of rotate
  commands.
\<close>

theorem rotation_cycle_of_four_and_O_fixed:
  "(get_rotated90_around_anchor ^^ 4) vs = vs
   \<and> (kind t = KO \<longrightarrow> Tetromino_rotate t pf = Inr t \<and> rotate_commands n t pf = Inr t)"
  by (simp add: get_rotated90_four rotate_KO rotate_commands_KO)

theorem rotation_cycle_of_four_and_O_fixed_witness:
  "kind (Tetromino_O (Playfield_init Score_init (Vector 10 20))) = KO
   \<and> position (Tetromino_O (Playfield_init Score_init (Vector 10 20)))
       = [Vector 5 0, Vector 6 0, Vector 5 1, Vector 6 1]
   \<and> Tetromino_rotate (Tetromino_O (Playfield_init Score_init (Vector 10 20)))
        (Playfield_init Score_init (Vector 10 20))
       = Inr (Tetromino_O (Playfield_init Score_init (Vector 10 20)))
   \<and> rotate_commands 3 (Tetromino_O (Playfield_init Score_init (Vector 10 20)))
        (Playfield_init Score_init (Vector 10 20))
       = Inr (Tetromino_O (Playfield_init Score_init (Vector 10 20)))
   \<and> (get_rotated90_around_anchor ^^ 4) [Vector 5 0, Vector 4 0, Vector 6 0, Vector 6 1]
       = [Vector 5 0, Vector 4 0, Vector 6 0, Vector 6 1]"
  using rotation_cycle_of_four_and_O_fixed
    [of "[Vector 5 0, Vector 4 0, Vector 6 0, Vector 6 1]"
        "Tetromino_O (Playfield_init Score_init (Vector 10 20))"
        "Playfield_init Score_init (Vector 10 20)" 3]
  by (simp add: Tetromino_O_def Playfield_init_def py_int_div_def add_xy_def)

subsection \<open>Scoring\<close>

lemma Score_add_all_mono:
  "Score_add_all ls s = (None, s') \<Longrightarrow> score_value s \<le> score_value s'"
proof (induction ls arbitrary: s)
  case Nil
  then show ?case by simp
next
  case (Cons l ls)
  then show ?case
    by (fastforce simp: Score_add_def split: if_splits)
qed

text \<open>
  Claim C5. \<open>Score_add\<close> adds 0, 100, 300, 500, 800 for 0, 1, 2, 3, 4 lines and raises no
  exception; for any other argument it raises ValueError and leaves the score as it was.
  Over any sequence of calls that all succeed the score does not decrease.
\<close>

theorem Score_add_tiers:
  "Score_add 0 s = (None, s)
   \<and> Score_add 1 s = (None, s\<lparr>score_value := score_value s + 100\<rparr>)
   \<and> Score_add 2 s = (None, s\<lparr>score_value := score_value s + 300\<rparr>)
   \<and> Score_add 3 s = (None, s\<lparr>score_value := score_value s + 500\<rparr>)
   \<and> Score_add 4 s = (None, s\<lparr>score_value := score_value s + 800\<rparr>)
   \<and> (lines \<notin> {0, 1, 2, 3, 4} \<longrightarrow> Score_add lines s = (Some ValueError, s))
   \<and> (Score_add_all ls s = (None, s') \<longrightarrow> score_value s \<le> score_value s')"
  by (simp add: Score_add_def Score_add_all_mono)

theorem Score_add_tiers_witness:
  "(5::int) \<notin> {0, 1, 2, 3, 4}
   \<and> Score_add 5 \<lparr>score_value = 700\<rparr> = (Some ValueError, \<lparr>score_value = 700\<rparr>)
   \<and> Score_add_all [1, 0, 4, 2] \<lparr>score_value = 700\<rparr> = (None, \<lparr>score_value = 1900\<rparr>)
   \<and> score_value \<lparr>score_value = 700\<rparr> \<le> score_value \<lparr>score_value = 1900\<rparr>"
  using Score_add_tiers [of "\<lparr>score_value = 700\<rparr>" 5 "[1, 0, 4, 2]" "\<lparr>score_value = 1900\<rparr>"]
  by (simp add: Score_add_def)

subsection \<open>The bag\<close>

lemma py_index_in_range: "0 \<le> i \<Longrightarrow> i < int n \<Longrightarrow> py_index n i = Inr (nat i)"
  by (simp add: py_index_def)

lemma get_tetromino_random:
  assumes "randrange_returns (length b) i"
  shows "get_tetromino i pf b =
           Inr (b ! nat i,
                if length b = 1 then new_bag pf
                else take (nat i) b @ drop (Suc (nat i)) b)"
proof -
  from assms have i: "0 \<le> i" "i < int (length b)" and ne: "b \<noteq> []"
    by (auto simp: randrange_returns_def)
  have len: "length (take (nat i) b @ drop (Suc (nat i)) b) = length b - 1"
    using i by auto
  have "(take (nat i) b @ drop (Suc (nat i)) b = []) = (length b = 1)"
    using len ne by (metis One_nat_def Suc_pred length_0_conv length_greater_0_conv diff_self_eq_0 nat.simps(3))
  with i ne show ?thesis
    by (simp add: get_tetromino_def py_pop_def py_index_in_range)
qed

lemma filter_remove_nth:
  "j < length xs \<Longrightarrow>
   length (filter P (xs ! j # take j xs @ drop (Suc j) xs)) = length (filter P xs)"
proof -
  assume "j < length xs"
  then have "xs = take j xs @ xs ! j # drop (Suc j) xs"
    by (rule id_take_nth_drop)
  then have "length (filter P xs) = length (filter P (take j xs @ xs ! j # drop (Suc j) xs))"
    by simp
  then show ?thesis by simp
qed

lemma draws_whole_bag:
  "length is = length b \<Longrightarrow> b \<noteq> [] \<Longrightarrow> random_choices is pf b \<Longrightarrow>
   \<exists>ts. draws is pf b = Inr (ts, new_bag pf) \<and> length ts = length b
        \<and> (\<forall>P. length (filter P ts) = length (filter P b))"
proof (induction "is" arbitrary: b)
  case Nil
  then show ?case by simp
next
  case (Cons i "is")
  from Cons.prems have r: "randrange_returns (length b) i"
    by simp
  then have j: "nat i < length b"
    by (auto simp: randrange_returns_def)
  let ?rest = "take (nat i) b @ drop (Suc (nat i)) b"
  note g = get_tetromino_random [OF r, of pf]
  show ?case
  proof (cases "length b = 1")
    case True
    with Cons.prems have "is = []" by simp
    moreover from True j have "nat i = 0" by simp
    moreover from True obtain x where "b = [x]"
      by (cases b) auto
    ultimately show ?thesis using g True by simp
  next
    case False
    with g have g': "get_tetromino i pf b = Inr (b ! nat i, ?rest)" by simp
    have len: "length is = length ?rest"
      using Cons.prems(1) j by auto
    have ne: "?rest \<noteq> []"
      using False j Cons.prems(2) len Cons.prems(1)
      by (metis One_nat_def length_0_conv length_Cons list.size(3))
    have rc: "random_choices is pf ?rest"
      using Cons.prems(3) g' by simp
    from Cons.IH [OF len ne rc] obtain ts where
      ts: "draws is pf ?rest = Inr (ts, new_bag pf)" "length ts = length ?rest"
          "\<forall>P. length (filter P ts) = length (filter P ?rest)"
      by blast
    have "\<forall>P. length (filter P (b ! nat i # ts)) = length (filter P b)"
    proof
      fix P
      have "length (filter P (b ! nat i # ts)) = length (filter P (b ! nat i # ?rest))"
        using ts(3) by simp
      also have "\<dots> = length (filter P b)"
        by (rule filter_remove_nth [OF j])
      finally show "length (filter P (b ! nat i # ts)) = length (filter P b)" .
    qed
    moreover have "length (b ! nat i # ts) = length b"
      using ts(2) len Cons.prems(1) by simp
    ultimately show ?thesis
      using g' ts(1) by simp
  qed
qed

lemma draws_append:
  "draws (is1 @ is2) pf b =
     (case draws is1 pf b of
        Inl e \<Rightarrow> Inl e
      | Inr (ts1, b1) \<Rightarrow>
          (case draws is2 pf b1 of
             Inl e \<Rightarrow> Inl e
           | Inr (ts2, b2) \<Rightarrow> Inr (ts1 @ ts2, b2)))"
  by (induction is1 arbitrary: b) (auto split: sum.splits prod.splits)

lemma random_choices_append:
  "random_choices (is1 @ is2) pf b \<Longrightarrow> draws is1 pf b = Inr (ts1, b1) \<Longrightarrow>
   random_choices is1 pf b \<and> random_choices is2 pf b1"
  by (induction is1 arbitrary: b ts1) (auto split: sum.splits prod.splits)

lemma random_choices_prefix:
  "random_choices (is1 @ is2) pf b \<Longrightarrow> random_choices is1 pf b"
  by (induction is1 arbitrary: b) (auto split: sum.splits prod.splits)

lemma count_list_map: "count_list (map f xs) y = length (filter (\<lambda>x. f x = y) xs)"
  by (induction xs) auto

lemma new_bag_kinds: "map kind (new_bag pf) = [KI, KJ, KL, KO, KS, KZ, KT]"
  by (simp add: new_bag_def Tetromino_I_def Tetromino_J_def Tetromino_L_def Tetromino_O_def
      Tetromino_S_def Tetromino_Z_def Tetromino_T_def Let_def)

lemma new_bag_count: "count_list (map kind (new_bag pf)) k = 1"
  unfolding new_bag_kinds by (cases k) simp_all

lemma draws_windows:
  "length is = 7 * n \<Longrightarrow> random_choices is pf (new_bag pf) \<Longrightarrow>
   \<exists>ts. draws is pf (new_bag pf) = Inr (ts, new_bag pf) \<and> length ts = 7 * n
        \<and> (\<forall>j k. j < n \<longrightarrow> count_list (map kind (take 7 (drop (7 * j) ts))) k = 1)"
proof (induction n arbitrary: "is")
  case 0
  then show ?case by simp
next
  case (Suc n)
  let ?is1 = "take 7 is" and ?is2 = "drop 7 is"
  have split: "is = ?is1 @ ?is2" by simp
  have l1: "length ?is1 = length (new_bag pf)"
    using Suc.prems(1) by (simp add: new_bag_def)
  have l2: "length ?is2 = 7 * n"
    using Suc.prems(1) by simp
  have ne: "new_bag pf \<noteq> []" by (simp add: new_bag_def)
  have rc1: "random_choices ?is1 pf (new_bag pf)"
    using Suc.prems(2) random_choices_prefix [of ?is1 ?is2] by simp
  from draws_whole_bag [OF l1 ne rc1] obtain ts1 where
    ts1: "draws ?is1 pf (new_bag pf) = Inr (ts1, new_bag pf)" "length ts1 = length (new_bag pf)"
         "\<forall>P. length (filter P ts1) = length (filter P (new_bag pf))"
    by blast
  have rc2: "random_choices ?is2 pf (new_bag pf)"
    using Suc.prems(2) random_choices_append [of ?is1 ?is2 pf "new_bag pf" ts1 "new_bag pf"] ts1(1)
    by simp
  from Suc.IH [OF l2 rc2] obtain ts2 where
    ts2: "draws ?is2 pf (new_bag pf) = Inr (ts2, new_bag pf)" "length ts2 = 7 * n"
         "\<forall>j k. j < n \<longrightarrow> count_list (map kind (take 7 (drop (7 * j) ts2))) k = 1"
    by blast
  have len1: "length ts1 = 7" using ts1(2) by (simp add: new_bag_def)
  have d: "draws is pf (new_bag pf) = Inr (ts1 @ ts2, new_bag pf)"
    using draws_append [of ?is1 ?is2 pf "new_bag pf"] ts1(1) ts2(1) by simp
  have c1: "count_list (map kind ts1) k = 1" for k
    using ts1(3) new_bag_count [of pf k] by (simp add: count_list_map)
  have w: "count_list (map kind (take 7 (drop (7 * j) (ts1 @ ts2)))) k = 1" if "j < Suc n" for j k
  proof (cases j)
    case 0
    then show ?thesis using len1 c1 by simp
  next
    case (Suc j')
    then have "j' < n" using that by simp
    moreover have "drop (7 * j) (ts1 @ ts2) = drop (7 * j') ts2"
      using Suc len1 by simp
    ultimately show ?thesis using ts2(3) by simp
  qed
  show ?case
    using d len1 ts2(2) w by auto
qed

text \<open>
  Claim C6. A draw with any number \<open>i\<close> that \<^verbatim>\<open>randrange\<close> can return takes the
  \<open>i\<close>-th piece out of the bag; the bag is refilled to the seven pieces exactly when that
  draw took its last piece. From a fresh bag, any run of \<open>7 * n\<close> draws succeeds, ends on a
  fresh bag, and each of its \<open>n\<close> windows of seven draws holds every kind exactly once.
\<close>

theorem seven_bag_draws:
  "(randrange_returns (length b) i \<longrightarrow>
      get_tetromino i pf b =
        Inr (b ! nat i,
             if length b = 1 then new_bag pf
             else take (nat i) b @ drop (Suc (nat i)) b))
   \<and> (length is = 7 * n \<and> random_choices is pf (new_bag pf) \<longrightarrow>
        (\<exists>ts. draws is pf (new_bag pf) = Inr (ts, new_bag pf) \<and> length ts = 7 * n
           \<and> (\<forall>j k. j < n \<longrightarrow> count_list (map kind (take 7 (drop (7 * j) ts))) k = 1)))"
  using get_tetromino_random draws_windows by blast


theorem seven_bag_draws_witness:
  "randrange_returns (length (new_bag main_playfield)) 3
   \<and> length [3, 0, 4, 1, 2, 0, 0 :: int] = 7 * 1
   \<and> random_choices [3, 0, 4, 1, 2, 0, 0] main_playfield (new_bag main_playfield)
   \<and> get_tetromino 3 main_playfield (new_bag main_playfield)
       = Inr (Tetromino_O main_playfield,
              [Tetromino_I main_playfield, Tetromino_J main_playfield, Tetromino_L main_playfield,
               Tetromino_S main_playfield, Tetromino_Z main_playfield, Tetromino_T main_playfield])
   \<and> (\<exists>ts. draws [3, 0, 4, 1, 2, 0, 0] main_playfield (new_bag main_playfield)
               = Inr (ts, new_bag main_playfield)
          \<and> length ts = 7
          \<and> (\<forall>k. count_list (map kind (take 7 ts)) k = 1))"
proof -
  have h1: "randrange_returns (length (new_bag main_playfield)) 3"
    by (simp add: randrange_returns_def new_bag_def)
  have h2: "length [3, 0, 4, 1, 2, 0, 0 :: int] = 7 * 1 
            \<and> random_choices [3, 0, 4, 1, 2, 0, 0] main_playfield (new_bag main_playfield)"
    by (simp add: randrange_returns_def new_bag_def get_tetromino_def py_pop_def py_index_def)
  from seven_bag_draws [of "new_bag main_playfield" 3 main_playfield "[3, 0, 4, 1, 2, 0, 0]" 1]
  have "get_tetromino 3 main_playfield (new_bag main_playfield) =
        Inr (new_bag main_playfield ! nat 3,
             if length (new_bag main_playfield) = 1 then new_bag main_playfield
             else take (nat 3) (new_bag main_playfield) @ drop (Suc (nat 3)) (new_bag main_playfield))"
    and "\<exists>ts. draws [3, 0, 4, 1, 2, 0, 0] main_playfield (new_bag main_playfield)
               = Inr (ts, new_bag main_playfield)
          \<and> length ts = 7 * 1
          \<and> (\<forall>j k. j < 1 \<longrightarrow> count_list (map kind (take 7 (drop (7 * j) ts))) k = 1)"
    using h1 h2 by blast+
  then show ?thesis
    using h1 h2 by (simp add: new_bag_def)
qed

subsection \<open>Landing: marking, clearing, compaction\<close>

lemma py_index_less: "py_index n i = Inr j \<Longrightarrow> j < n"
  by (auto simp: py_index_def split: if_splits)

lemma py_setitem_length: "py_setitem xs i v = Inr ys \<Longrightarrow> length ys = length xs"
  by (auto simp: py_setitem_def split: sum.splits)

lemma py_pop_length: "py_pop xs i = Inr (x, ys) \<Longrightarrow> Suc (length ys) = length xs"
  by (auto simp: py_pop_def split: sum.splits dest!: py_index_less)

lemma set_cell_length: "set_cell content y x c = Inr content' \<Longrightarrow> length content' = length content"
  by (auto simp: set_cell_def split: sum.splits dest: py_setitem_length)

lemma land_mark_length:
  "land_mark vs c content rows = Inr (content', rows') \<Longrightarrow> length content' = length content"
  by (induction vs arbitrary: content rows) (auto split: sum.splits dest: set_cell_length)

lemma land_scan_filter:
  "land_scan w content rows = Inr rem \<Longrightarrow>
   rem = filter (\<lambda>r. \<exists>row. py_getitem content r = Inr row \<and> hitCount row \<ge> w) rows"
  by (induction rows arbitrary: rem) (auto split: sum.splits)

lemma land_pop_length:
  "land_pop rs content = Inr content' \<Longrightarrow> length content' + length rs = length content"
proof (induction rs arbitrary: content)
  case Nil
  then show ?case by simp
next
  case (Cons r rs)
  then show ?case
    by (fastforce split: sum.splits dest: py_pop_length)
qed

lemma land_insert_eq: "land_insert e rs content = replicate (length rs) e @ content"
  by (induction rs arbitrary: content) (simp_all add: replicate_app_Cons_same)

text \<open>What a successful call of \<open>land\<close> has computed on its way.\<close>

lemma land_InrE:
  assumes "land vs c pf = Inr pf'"
  obtains marked rowsToScan rowsToRemove popped sc where
    "land_mark vs (shift_to_gray c) (playfieldContent pf) [] = Inr (marked, rowsToScan)"
    "land_scan (vx (psize pf)) marked (sort rowsToScan) = Inr rowsToRemove"
    "land_pop (rev rowsToRemove) marked = Inr popped"
    "Score_add (int (length rowsToRemove)) (score pf) = (None, sc)"
    "replicate (length rowsToRemove) (emptyRowGenerator pf) @ popped \<noteq> []"
    "pf' = pf\<lparr>playfieldContent := replicate (length rowsToRemove) (emptyRowGenerator pf) @ popped,
              topped_out := (topped_out pf \<or>
                 list_ex (\<lambda>cell. cell \<noteq> None)
                   (hd (replicate (length rowsToRemove) (emptyRowGenerator pf) @ popped))),
              score := sc\<rparr>"
proof -
  from assms obtain marked rowsToScan where
    m: "land_mark vs (shift_to_gray c) (playfieldContent pf) [] = Inr (marked, rowsToScan)"
    unfolding land_def by (auto split: sum.splits)
  from assms m obtain rowsToRemove where
    s: "land_scan (vx (psize pf)) marked (sort rowsToScan) = Inr rowsToRemove"
    unfolding land_def by (auto split: sum.splits)
  from assms m s obtain popped where
    p: "land_pop (rev rowsToRemove) marked = Inr popped"
    unfolding land_def by (auto split: sum.splits)
  let ?new = "replicate (length rowsToRemove) (emptyRowGenerator pf) @ popped"
  from assms m s p obtain topRow rows where
    n: "?new = topRow # rows"
    unfolding land_def land_insert_eq by (auto split: list.splits)
  from assms m s p n obtain sc where
    sc: "Score_add (int (length rowsToRemove)) (score pf) = (None, sc)" and
    pf': "pf' = pf\<lparr>playfieldContent := topRow # rows,
              topped_out := (topped_out pf \<or> list_ex (\<lambda>cell. cell \<noteq> None) topRow),
              score := sc\<rparr>"
    unfolding land_def land_insert_eq by (auto split: prod.splits option.splits)
  from n have "?new \<noteq> []" "hd ?new = topRow" by simp_all
  with m s p sc pf' n that show thesis
    by metis
qed

lemma land_height:
  assumes "land vs c pf = Inr pf'"
  shows "length (playfieldContent pf') = length (playfieldContent pf)"
proof -
  from assms obtain marked rowsToScan rowsToRemove popped sc where
    m: "land_mark vs (shift_to_gray c) (playfieldContent pf) [] = Inr (marked, rowsToScan)" and
    p: "land_pop (rev rowsToRemove) marked = Inr popped" and
    pf': "pf' = pf\<lparr>playfieldContent := replicate (length rowsToRemove) (emptyRowGenerator pf) @ popped,
              topped_out := (topped_out pf \<or>
                 list_ex (\<lambda>cell. cell \<noteq> None)
                   (hd (replicate (length rowsToRemove) (emptyRowGenerator pf) @ popped))),
              score := sc\<rparr>"
    by (rule land_InrE)
  from land_mark_length [OF m] land_pop_length [OF p] pf' show ?thesis
    by simp
qed

lemma land_psize: "land vs c pf = Inr pf' \<Longrightarrow> psize pf' = psize pf"
  by (erule land_InrE) simp

lemma land_topped_out_mono: "land vs c pf = Inr pf' \<Longrightarrow> topped_out pf \<Longrightarrow> topped_out pf'"
  by (erule land_InrE) simp

lemma land_topped_out_eq:
  "land vs c pf = Inr pf' \<Longrightarrow>
   topped_out pf' = (topped_out pf \<or> list_ex (\<lambda>cell. cell \<noteq> None) (hd (playfieldContent pf')))"
  by (erule land_InrE) simp

lemma land_rowsToRemove_eq:
  assumes "land vs c pf = Inr pf'"
  obtains rowsToRemove popped where
    "land_rowsToRemove vs c pf = Inr rowsToRemove"
    "playfieldContent pf' = replicate (length rowsToRemove) (emptyRowGenerator pf) @ popped"
    "topped_out pf' = (topped_out pf \<or>
                 list_ex (\<lambda>cell. cell \<noteq> None)
                   (hd (replicate (length rowsToRemove) (emptyRowGenerator pf) @ popped)))"
    "Score_add (int (length rowsToRemove)) (score pf) = (None, score pf')"
  using assms by (elim land_InrE) (simp add: land_rowsToRemove_def)

lemma empty_row_not_occupied: "\<not> list_ex (\<lambda>cell. cell \<noteq> None) (emptyRowGenerator pf)"
  by (simp add: emptyRowGenerator_def list_ex_iff)


lemma nths_agree:
  "(\<And>i. i < length xs \<Longrightarrow> (i \<in> A) = (i \<in> B)) \<Longrightarrow> nths xs A = nths xs B"
  unfolding nths_def
  by (rule arg_cong [where f = "map fst"], rule filter_cong) (auto dest: set_zip_rightD)

lemma nths_remove_largest:
  assumes j: "j < length c" and small: "\<And>i. i \<in> S \<Longrightarrow> i < j"
  shows "nths (take j c @ drop (Suc j) c) (- S) = nths c (- insert j S)"
proof -
  have c: "c = take j c @ c ! j # drop (Suc j) c"
    using j by (rule id_take_nth_drop)
  have lt: "length (take j c) = j" using j by simp
  have "nths c (- insert j S) = nths (take j c @ c ! j # drop (Suc j) c) (- insert j S)"
    using c by simp
  also have "\<dots> = nths (take j c) (- insert j S) @ nths (drop (Suc j) c) {k. Suc k + j \<in> - insert j S}"
    using j by (simp add: nths_append nths_Cons min_absorb2)
  also have "nths (drop (Suc j) c) {k. Suc k + j \<in> - insert j S} = drop (Suc j) c"
    by (rule nths_all) (use small in fastforce)
  also have "nths (take j c) (- insert j S) = nths (take j c) (- S)"
    by (rule nths_agree) (simp add: lt)
  finally have l: "nths c (- insert j S) = nths (take j c) (- S) @ drop (Suc j) c" .
  have "nths (take j c @ drop (Suc j) c) (- S)
        = nths (take j c) (- S) @ nths (drop (Suc j) c) {k. k + j \<in> - S}"
    using j by (simp add: nths_append min_absorb2)
  also have "nths (drop (Suc j) c) {k. k + j \<in> - S} = drop (Suc j) c"
    by (rule nths_all) (use small in fastforce)
  finally show ?thesis using l by simp
qed

lemma land_pop_descending:
  "sorted (rev ds) \<Longrightarrow> distinct ds \<Longrightarrow> \<forall>d\<in>set ds. 0 \<le> d \<and> d < int (length c) \<Longrightarrow>
   land_pop ds c = Inr (nths c (- nat ` set ds))"
proof (induction ds arbitrary: c)
  case Nil
  have "nths c UNIV = c" by (rule nths_all) simp
  then show ?case by simp
next
  case (Cons d ds)
  let ?j = "nat d"
  let ?c1 = "take ?j c @ drop (Suc ?j) c"
  from Cons.prems have d: "0 \<le> d" "d < int (length c)" by simp_all
  then have j: "?j < length c" by simp
  have below: "\<forall>e\<in>set ds. e < d"
  proof
    fix e assume e: "e \<in> set ds"
    with Cons.prems(1) have "e \<le> d" by (simp add: sorted_append)
    moreover from e Cons.prems(2) have "e \<noteq> d" by auto
    ultimately show "e < d" by simp
  qed
  have pop: "py_pop c d = Inr (c ! ?j, ?c1)"
    using d by (simp add: py_pop_def py_index_in_range)
  have s: "sorted (rev ds)" using Cons.prems(1) by (simp add: sorted_append)
  have dd: "distinct ds" using Cons.prems(2) by simp
  have r: "\<forall>e\<in>set ds. 0 \<le> e \<and> e < int (length ?c1)"
    using Cons.prems(3) below j by fastforce
  have small: "\<And>i. i \<in> nat ` set ds \<Longrightarrow> i < ?j"
    using below Cons.prems(3) by fastforce
  have "land_pop (d # ds) c = land_pop ds ?c1"
    using pop by simp
  also have "\<dots> = Inr (nths ?c1 (- nat ` set ds))"
    by (rule Cons.IH [OF s dd r])
  also have "nths ?c1 (- nat ` set ds) = nths c (- insert ?j (nat ` set ds))"
    by (rule nths_remove_largest [OF j small])
  finally show ?case by simp
qed

lemma set_cell_in_grid:
  assumes "0 \<le> y" "y < int (length content)" "0 \<le> x" "x < int (length (content ! nat y))"
  shows "set_cell content y x c = Inr (content[nat y := (content ! nat y)[nat x := c]])"
  using assms by (simp add: set_cell_def py_getitem_def py_setitem_def py_index_in_range)

lemma land_mark_in_grid:
  assumes "length content = h" "\<forall>i<h. length (content ! i) = w"
    and "\<forall>v\<in>set vs. 0 \<le> vx v \<and> vx v < int w \<and> 0 \<le> vy v \<and> vy v < int h"
  shows "\<exists>marked rows'.
           land_mark vs c content rows = Inr (marked, rows')
           \<and> length marked = h \<and> (\<forall>i<h. length (marked ! i) = w)
           \<and> set rows' = set rows \<union> vy ` set vs
           \<and> (distinct rows \<longrightarrow> distinct rows')
           \<and> (\<forall>i<h. \<forall>j<w. marked ! i ! j =
                 (if Vector (int j) (int i) \<in> set vs then Some c else content ! i ! j))"
  using assms
proof (induction vs arbitrary: content rows)
  case Nil
  then show ?case by simp
next
  case (Cons v vs)
  obtain x y where v: "v = Vector x y" by (cases v)
  from Cons.prems(3) v have xy: "0 \<le> x" "x < int w" "0 \<le> y" "y < int h" by simp_all
  let ?c1 = "content[nat y := (content ! nat y)[nat x := Some c]]"
  let ?rows1 = "if y \<in> set rows then rows else rows @ [y]"
  have sc: "set_cell content y x (Some c) = Inr ?c1"
    using xy Cons.prems(1,2) by (intro set_cell_in_grid) simp_all
  have l1: "length ?c1 = h" using Cons.prems(1) by simp
  have w1: "\<forall>i<h. length (?c1 ! i) = w"
    using Cons.prems(1,2) xy by (auto simp: nth_list_update)
  have g1: "\<forall>v\<in>set vs. 0 \<le> vx v \<and> vx v < int w \<and> 0 \<le> vy v \<and> vy v < int h"
    using Cons.prems(3) by simp
  from Cons.IH [OF l1 w1 g1, of ?rows1] obtain marked rows' where
    m: "land_mark vs c ?c1 ?rows1 = Inr (marked, rows')"
       "length marked = h" "\<forall>i<h. length (marked ! i) = w"
       "set rows' = set ?rows1 \<union> vy ` set vs"
       "distinct ?rows1 \<longrightarrow> distinct rows'"
       "\<forall>i<h. \<forall>j<w. marked ! i ! j =
                 (if Vector (int j) (int i) \<in> set vs then Some c else ?c1 ! i ! j)"
    by blast
  have lm: "land_mark (v # vs) c content rows = Inr (marked, rows')"
    using sc m(1) v by (cases "y \<in> set rows") simp_all
  have s: "set rows' = set rows \<union> vy ` set (v # vs)"
    using m(4) v by auto
  have d: "distinct rows \<longrightarrow> distinct rows'"
    using m(5) by auto
  have cells: "\<forall>i<h. \<forall>j<w. marked ! i ! j =
                 (if Vector (int j) (int i) \<in> set (v # vs) then Some c else content ! i ! j)"
  proof (intro allI impI)
    fix i j assume i: "i < h" and j: "j < w"
    have here: "(Vector (int j) (int i) = v) = (i = nat y \<and> j = nat x)"
      using v xy by auto
    have "?c1 ! i ! j = (if i = nat y \<and> j = nat x then Some c else content ! i ! j)"
      using i j Cons.prems(1,2) xy by (auto simp: nth_list_update)
    with m(6) i j here
    show "marked ! i ! j =
            (if Vector (int j) (int i) \<in> set (v # vs) then Some c else content ! i ! j)"
      by auto
  qed
  from lm m(2,3) s d cells show ?case by blast
qed

lemma land_scan_in_range:
  "\<forall>r\<in>set rows. 0 \<le> r \<and> r < int (length content) \<Longrightarrow>
   land_scan w content rows = Inr (filter (\<lambda>r. hitCount (content ! nat r) \<ge> w) rows)"
  by (induction rows) (simp_all add: py_getitem_def py_index_in_range)

lemma Score_add_ok: "0 \<le> n \<Longrightarrow> n \<le> 4 \<Longrightarrow> \<exists>sc. Score_add n s = (None, sc)"
  by (simp add: Score_add_def)

lemma nths_without_last: "nths xs (- {length xs - 1}) = butlast xs"
proof (cases "xs = []")
  case True
  then show ?thesis by simp
next
  case False
  then have j: "length xs - 1 < length xs" by simp
  have "nths (take (length xs - 1) xs @ drop (Suc (length xs - 1)) xs) (- {})
        = nths xs (- insert (length xs - 1) {})"
    by (rule nths_remove_largest [OF j]) simp
  moreover have "nths (butlast xs) UNIV = butlast xs"
    by (rule nths_all) simp
  ultimately show ?thesis
    using False by (simp add: butlast_conv_take)
qed

lemma land_in_grid:
  assumes wf: "well_formed pf" and grid: "list_all (in_grid pf) vs"
    and ne: "playfieldContent pf \<noteq> []"
  shows "\<exists>marked rowsToRemove.
          land_marked vs c pf = Inr marked
          \<and> length marked = length (playfieldContent pf)
          \<and> (\<forall>i<nat (vy (psize pf)). \<forall>j<nat (vx (psize pf)).
                marked ! i ! j =
                  (if Vector (int j) (int i) \<in> set vs then Some (shift_to_gray c)
                   else playfieldContent pf ! i ! j))
          \<and> land_rowsToRemove vs c pf = Inr rowsToRemove
          \<and> sorted rowsToRemove \<and> distinct rowsToRemove
          \<and> set rowsToRemove =
               {y \<in> vy ` set vs.
                  int (length (filter (\<lambda>cell. cell \<noteq> None) (marked ! nat y))) \<ge> vx (psize pf)}
          \<and> (length rowsToRemove \<le> 4 \<longrightarrow>
               (\<exists>pf'. land vs c pf = Inr pf'
                  \<and> playfieldContent pf' =
                      replicate (length rowsToRemove) (replicate (nat (vx (psize pf))) None)
                        @ nths marked (- nat ` set rowsToRemove)
                  \<and> well_formed pf' \<and> psize pf' = psize pf
                  \<and> Score_add (int (length rowsToRemove)) (score pf) = (None, score pf')
                  \<and> (rowsToRemove = [vy (psize pf) - 1] \<longrightarrow>
                        playfieldContent pf' =
                          replicate (nat (vx (psize pf))) None # butlast marked)))"
proof -
  let ?h = "nat (vy (psize pf))" and ?w = "nat (vx (psize pf))"
  let ?content = "playfieldContent pf"
  have len: "length ?content = ?h" using wf by (simp add: well_formed_def)
  have widths: "\<forall>i<?h. length (?content ! i) = ?w"
    using wf by (simp add: well_formed_def list_all_length)
  have g: "\<forall>v\<in>set vs. 0 \<le> vx v \<and> vx v < int ?w \<and> 0 \<le> vy v \<and> vy v < int ?h"
    using grid by (auto simp: list_all_iff in_grid_def)
  from land_mark_in_grid [OF len widths g, of "shift_to_gray c" "[]"]
  obtain marked rows where
    m: "land_mark vs (shift_to_gray c) ?content [] = Inr (marked, rows)" and
    lm: "length marked = ?h" and wm: "\<forall>i<?h. length (marked ! i) = ?w" and
    sr: "set rows = vy ` set vs" and dr: "distinct rows" and
    cells: "\<forall>i<?h. \<forall>j<?w. marked ! i ! j =
              (if Vector (int j) (int i) \<in> set vs then Some (shift_to_gray c)
               else ?content ! i ! j)"
    by auto
  define rs where "rs = filter (\<lambda>r. hitCount (marked ! nat r) \<ge> vx (psize pf)) (sort rows)"
  have rng: "\<forall>r\<in>set (sort rows). 0 \<le> r \<and> r < int (length marked)"
    using sr g lm by auto
  have scan: "land_scan (vx (psize pf)) marked (sort rows) = Inr rs"
    unfolding rs_def by (rule land_scan_in_range [OF rng])
  have sorted_rs: "sorted rs" by (simp add: rs_def sorted_wrt_filter)
  have distinct_rs: "distinct rs" using dr by (simp add: rs_def)
  have set_rs: "set rs =
               {y \<in> vy ` set vs.
                  int (length (filter (\<lambda>cell. cell \<noteq> None) (marked ! nat y))) \<ge> vx (psize pf)}"
    using sr by (auto simp: rs_def hitCount_def)
  have rng_rs: "\<forall>d\<in>set rs. 0 \<le> d \<and> d < int (length marked)"
    using rng by (auto simp: rs_def)
  have lmk: "land_marked vs c pf = Inr marked"
    using m by (simp add: land_marked_def)
  have lrr: "land_rowsToRemove vs c pf = Inr rs"
    using m scan by (simp add: land_rowsToRemove_def)
  have final: "\<exists>pf'. land vs c pf = Inr pf'
                  \<and> playfieldContent pf' =
                      replicate (length rs) (replicate ?w None) @ nths marked (- nat ` set rs)
                  \<and> well_formed pf' \<and> psize pf' = psize pf
                  \<and> Score_add (int (length rs)) (score pf) = (None, score pf')
                  \<and> (rs = [vy (psize pf) - 1] \<longrightarrow>
                        playfieldContent pf' = replicate ?w None # butlast marked)"
    if le4: "length rs \<le> 4"
  proof -
    have rng': "\<forall>d\<in>set (rev rs). 0 \<le> d \<and> d < int (length marked)"
      using rng_rs by simp
    have pop: "land_pop (rev rs) marked = Inr (nths marked (- nat ` set rs))"
      using land_pop_descending [of "rev rs" marked] sorted_rs distinct_rs rng' by simp
    let ?new = "replicate (length rs) (emptyRowGenerator pf) @ nths marked (- nat ` set rs)"
    from Score_add_ok [of "int (length rs)" "score pf"] le4 obtain sc where
      sc: "Score_add (int (length rs)) (score pf) = (None, sc)" by auto
    define pf' where "pf' = pf\<lparr>playfieldContent := ?new,
        topped_out := (topped_out pf \<or> list_ex (\<lambda>cell. cell \<noteq> None) (hd ?new)),
        score := sc\<rparr>"
    have "length ?new = length marked"
      using land_pop_length [OF pop] by simp
    with lm len ne have "?new \<noteq> []"
      by (metis length_0_conv)
    then obtain topRow rest where n: "?new = topRow # rest"
      by (cases ?new) auto
    have l: "land vs c pf = Inr pf'"
      unfolding land_def pf'_def by (simp add: m scan pop sc land_insert_eq n)
    have c': "playfieldContent pf' = replicate (length rs) (replicate ?w None) @ nths marked (- nat ` set rs)"
      by (simp add: pf'_def emptyRowGenerator_def)
    have ps: "psize pf' = psize pf" by (simp add: pf'_def)
    have "length (playfieldContent pf') = ?h"
      using land_height [OF l] len by simp
    moreover have "\<forall>row\<in>set (playfieldContent pf'). length row = ?w"
    proof
      fix row assume "row \<in> set (playfieldContent pf')"
      with c' have "row = replicate ?w None \<or> row \<in> set marked"
        by (auto dest: in_set_nthsD)
      with wm lm show "length row = ?w"
        by (auto simp: in_set_conv_nth)
    qed
    ultimately have wf': "well_formed pf'"
      using ps by (simp add: well_formed_def list_all_iff)
    have bottom: "playfieldContent pf' = replicate ?w None # butlast marked"
      if b: "rs = [vy (psize pf) - 1]"
    proof -
      have "nat (vy (psize pf) - 1) = length marked - 1"
        using lm by simp
      then have "nths marked (- nat ` set rs) = butlast marked"
        using b nths_without_last [of marked] by simp
      with c' b show ?thesis by simp
    qed
    have "Score_add (int (length rs)) (score pf) = (None, score pf')"
      using sc by (simp add: pf'_def)
    with l c' wf' ps bottom show ?thesis
      by blast
  qed
  show ?thesis
  proof (rule exI [of _ marked], rule exI [of _ rs], intro conjI)
    show "land_marked vs c pf = Inr marked" by (rule lmk)
    show "length marked = length (playfieldContent pf)" using lm len by simp
    show "\<forall>i<nat (vy (psize pf)). \<forall>j<nat (vx (psize pf)).
            marked ! i ! j =
              (if Vector (int j) (int i) \<in> set vs then Some (shift_to_gray c)
               else playfieldContent pf ! i ! j)"
      by (rule cells)
    show "land_rowsToRemove vs c pf = Inr rs" by (rule lrr)
    show "sorted rs" by (rule sorted_rs)
    show "distinct rs" by (rule distinct_rs)
    show "set rs =
            {y \<in> vy ` set vs.
               int (length (filter (\<lambda>cell. cell \<noteq> None) (marked ! nat y))) \<ge> vx (psize pf)}"
      by (rule set_rs)
    show "length rs \<le> 4 \<longrightarrow>
            (\<exists>pf'. land vs c pf = Inr pf'
               \<and> playfieldContent pf' =
                   replicate (length rs) (replicate (nat (vx (psize pf))) None)
                     @ nths marked (- nat ` set rs)
               \<and> well_formed pf' \<and> psize pf' = psize pf
               \<and> Score_add (int (length rs)) (score pf) = (None, score pf')
               \<and> (rs = [vy (psize pf) - 1] \<longrightarrow>
                     playfieldContent pf' =
                       replicate (nat (vx (psize pf))) None # butlast marked))"
      by (rule impI, rule final)
  qed
qed

text \<open>
  The lemma \<open>land_in_grid\<close> above is the behaviour of \<open>land\<close> for cells inside a
  well-formed grid: the cells of the vectors are set and no other, the rows removed are
  exactly the touched rows with at least \<^verbatim>\<open>size.x\<close> occupied cells, and the new
  content is one empty row per removed row on top of the remaining rows. The next lemmas
  evaluate it on the full bottom row of the playfield of \<^verbatim>\<open>main\<close>.
\<close>

lemma bottom_row_land:
  "land bottom_row (color_char KI) main_playfield
     = Inr (main_playfield\<lparr>score := \<lparr>score_value = 100\<rparr>\<rparr>)"
  by code_simp

lemma bottom_row_rowsToRemove:
  "land_rowsToRemove bottom_row (color_char KI) main_playfield = Inr [19]"
  by code_simp

lemma overhang_accepted:
  "Tetromino_move_horizontally (- 1) (Tetromino_J main_playfield) nearly_full_playfield
     = Inr J_moved
   \<and> Tetromino_rotate J_moved nearly_full_playfield = Inr J_moved_rotated
   \<and> map vy (position J_moved_rotated) = [0, - 1, 1, 1]"
  by code_simp

lemma overhang_gravity:
  "Tetromino_do_gravity J_moved_rotated nearly_full_playfield
     = Inr (J_moved_rotated\<lparr>landed := True\<rparr>, cleared_from_top_playfield)"
  by code_simp

lemma overhang_land:
  "land (position J_moved_rotated) (color_char KJ) nearly_full_playfield
     = Inr cleared_from_top_playfield
   \<and> land_rowsToRemove (position J_moved_rotated) (color_char KJ) nearly_full_playfield
       = Inr [- 1]"
  by code_simp

lemma small_land:
  "playfieldContent small_playfield ! 1 = [Some (shift_to_gray (color_char KI)), None]
   \<and> land_rowsToRemove [Vector 1 (- 1), Vector 1 2] (color_char KJ) small_playfield
       = Inr [- 1, 2]
   \<and> land [Vector 1 (- 1), Vector 1 2] (color_char KJ) small_playfield
       = Inr ((Playfield_init Score_init (Vector 2 3))\<lparr>score := \<lparr>score_value = 300\<rparr>\<rparr>)"
  by code_simp

text \<open>
  Claim C2 says that every call of \<open>land\<close> marks the locked cells and removes exactly the
  touched rows with at least \<^verbatim>\<open>size.x\<close> occupied cells. The code subscripts the grid
  with the y of each cell, and a negative y counts rows from the bottom. On a playfield
  whose bottom row is full but for column 4, the J piece moved left and rotated at spawn
  (both accepted) has its cells in rows 0, -1, 1 and 1. Its gravity step lands it: the cell
  \<open>(4, -1)\<close> is written to \<open>(4, 19)\<close>, the row to remove is \<open>-1\<close>, and the bottom row,
  which the piece does not touch, is taken out and scored. On a 2 by 3 grid the rows to
  remove are \<open>-1\<close> and \<open>2\<close>, two names of the one full row, and row 1, which has one
  of its two cells occupied, is taken out as well. A full bottom row locked inside the
  grid is removed as the claim says.
\<close>

theorem land_overhang_removes_untouched_row:
  "Tetromino_move_horizontally (- 1) (Tetromino_J main_playfield) nearly_full_playfield
     = Inr J_moved
   \<and> Tetromino_rotate J_moved nearly_full_playfield = Inr J_moved_rotated
   \<and> map vy (position J_moved_rotated) = [0, - 1, 1, 1]
   \<and> Tetromino_do_gravity J_moved_rotated nearly_full_playfield
       = Inr (J_moved_rotated\<lparr>landed := True\<rparr>, cleared_from_top_playfield)
   \<and> land (position J_moved_rotated) (color_char KJ) nearly_full_playfield
       = Inr cleared_from_top_playfield
   \<and> land_rowsToRemove (position J_moved_rotated) (color_char KJ) nearly_full_playfield
       = Inr [- 1]
   \<and> playfieldContent small_playfield ! 1 = [Some (shift_to_gray (color_char KI)), None]
   \<and> land_rowsToRemove [Vector 1 (- 1), Vector 1 2] (color_char KJ) small_playfield
       = Inr [- 1, 2]
   \<and> land [Vector 1 (- 1), Vector 1 2] (color_char KJ) small_playfield
       = Inr ((Playfield_init Score_init (Vector 2 3))\<lparr>score := \<lparr>score_value = 300\<rparr>\<rparr>)
   \<and> land bottom_row (color_char KI) main_playfield
       = Inr (main_playfield\<lparr>score := \<lparr>score_value = 100\<rparr>\<rparr>)"
  using overhang_accepted overhang_gravity overhang_land small_land bottom_row_land
  by blast

text \<open>
  Claim C10. A call of \<open>land\<close> that returns has a list of rows to remove. If the list
  is not empty, the call leaves \<open>topped_out\<close> as it was, because the top rows of the new
  content are the freshly inserted empty rows. Hence a call that turns the flag from false
  to true has removed no row.
\<close>

theorem land_clearing_keeps_topped_out:
  "land vs c pf = Inr pf' \<longrightarrow>
     (\<exists>rowsToRemove.
        land_rowsToRemove vs c pf = Inr rowsToRemove
        \<and> (rowsToRemove \<noteq> [] \<longrightarrow>
             topped_out pf' = topped_out pf
             \<and> take (length rowsToRemove) (playfieldContent pf')
                 = replicate (length rowsToRemove) (replicate (nat (vx (psize pf))) None))
        \<and> (\<not> topped_out pf \<and> topped_out pf' \<longrightarrow> rowsToRemove = []))"
proof
  assume l: "land vs c pf = Inr pf'"
  then obtain rs popped where
    rs: "land_rowsToRemove vs c pf = Inr rs" and
    c: "playfieldContent pf' = replicate (length rs) (emptyRowGenerator pf) @ popped" and
    t: "topped_out pf' = (topped_out pf \<or>
                 list_ex (\<lambda>cell. cell \<noteq> None)
                   (hd (replicate (length rs) (emptyRowGenerator pf) @ popped)))"
    by (rule land_rowsToRemove_eq)
  have keep: "topped_out pf' = topped_out pf" if ne: "rs \<noteq> []"
  proof -
    from ne obtain k where k: "length rs = Suc k"
      by (cases rs) auto
    have "hd (replicate (length rs) (emptyRowGenerator pf) @ popped) = emptyRowGenerator pf"
      by (simp add: k)
    with t show ?thesis
      using empty_row_not_occupied [of pf] by simp
  qed
  have top: "take (length rs) (playfieldContent pf')
               = replicate (length rs) (replicate (nat (vx (psize pf))) None)"
    using c by (simp add: emptyRowGenerator_def)
  from rs keep top
  show "\<exists>rowsToRemove.
        land_rowsToRemove vs c pf = Inr rowsToRemove
        \<and> (rowsToRemove \<noteq> [] \<longrightarrow>
             topped_out pf' = topped_out pf
             \<and> take (length rowsToRemove) (playfieldContent pf')
                 = replicate (length rowsToRemove) (replicate (nat (vx (psize pf))) None))
        \<and> (\<not> topped_out pf \<and> topped_out pf' \<longrightarrow> rowsToRemove = [])"
    by blast
qed

lemma top_cell_land:
  "land [Vector 0 0] (color_char KI) main_playfield = Inr topped_playfield
   \<and> land_rowsToRemove [Vector 0 0] (color_char KI) main_playfield = Inr []
   \<and> \<not> topped_out main_playfield \<and> topped_out topped_playfield"
  by code_simp

theorem land_clearing_keeps_topped_out_witness:
  "land bottom_row (color_char KI) main_playfield
     = Inr (main_playfield\<lparr>score := \<lparr>score_value = 100\<rparr>\<rparr>)
   \<and> land_rowsToRemove bottom_row (color_char KI) main_playfield = Inr [19]
   \<and> [19 :: int] \<noteq> []
   \<and> topped_out (main_playfield\<lparr>score := \<lparr>score_value = 100\<rparr>\<rparr>) = topped_out main_playfield
   \<and> take (length [19 :: int]) (playfieldContent (main_playfield\<lparr>score := \<lparr>score_value = 100\<rparr>\<rparr>))
       = replicate (length [19 :: int]) (replicate (nat (vx (psize main_playfield))) None)
   \<and> land [Vector 0 0] (color_char KI) main_playfield = Inr topped_playfield
   \<and> \<not> topped_out main_playfield \<and> topped_out topped_playfield
   \<and> land_rowsToRemove [Vector 0 0] (color_char KI) main_playfield = Inr []"
proof -
  from land_clearing_keeps_topped_out
    [of bottom_row "color_char KI" main_playfield
        "main_playfield\<lparr>score := \<lparr>score_value = 100\<rparr>\<rparr>"]
    bottom_row_land
  obtain rs where "land_rowsToRemove bottom_row (color_char KI) main_playfield = Inr rs"
    and "rs \<noteq> [] \<longrightarrow>
           topped_out (main_playfield\<lparr>score := \<lparr>score_value = 100\<rparr>\<rparr>) = topped_out main_playfield
           \<and> take (length rs) (playfieldContent (main_playfield\<lparr>score := \<lparr>score_value = 100\<rparr>\<rparr>))
               = replicate (length rs) (replicate (nat (vx (psize main_playfield))) None)"
    by blast
  with bottom_row_rowsToRemove
  have a: "topped_out (main_playfield\<lparr>score := \<lparr>score_value = 100\<rparr>\<rparr>) = topped_out main_playfield
           \<and> take (length [19 :: int]) (playfieldContent (main_playfield\<lparr>score := \<lparr>score_value = 100\<rparr>\<rparr>))
               = replicate (length [19 :: int]) (replicate (nat (vx (psize main_playfield))) None)"
    by auto
  from land_clearing_keeps_topped_out
    [of "[Vector 0 0]" "color_char KI" main_playfield topped_playfield]
    top_cell_land
  obtain rs' where "land_rowsToRemove [Vector 0 0] (color_char KI) main_playfield = Inr rs'"
    and "rs' = []"
    by blast
  then have b: "land_rowsToRemove [Vector 0 0] (color_char KI) main_playfield = Inr []"
    by simp
  from a b bottom_row_land bottom_row_rowsToRemove top_cell_land show ?thesis
    by simp
qed

subsection \<open>The gravity step\<close>

lemma cell_at_in_grid:
  "well_formed pf \<Longrightarrow> 0 \<le> x \<Longrightarrow> x < vx (psize pf) \<Longrightarrow> 0 \<le> y \<Longrightarrow> y < vy (psize pf) \<Longrightarrow>
   cell_at (playfieldContent pf) y x = Inr (playfieldContent pf ! nat y ! nat x)"
  by (simp add: cell_at_def py_getitem_def py_index_in_range well_formed_def list_all_length)

lemma gravity_blocked_eq:
  "well_formed pf \<Longrightarrow> list_all (falling_cell pf) bs \<Longrightarrow>
   gravity_blocked pf bs = Inr (list_ex (blocked_below pf) bs)"
proof (induction bs)
  case Nil
  then show ?case by simp
next
  case (Cons b bs)
  then have b: "0 \<le> vx b" "vx b < vx (psize pf)" "- 1 \<le> vy b"
    and IH: "gravity_blocked pf bs = Inr (list_ex (blocked_below pf) bs)"
    by (simp_all add: falling_cell_def)
  show ?case
  proof (cases "vy b + 1 \<ge> vy (psize pf)")
    case True
    then show ?thesis by (simp add: blocked_below_def)
  next
    case False
    with b Cons.prems(1)
    have "cell_at (playfieldContent pf) (vy b + 1) (vx b)
            = Inr (playfieldContent pf ! nat (vy b + 1) ! nat (vx b))"
      by (intro cell_at_in_grid) simp_all
    moreover have "blocked_below pf b
                     = (playfieldContent pf ! nat (vy b + 1) ! nat (vx b) \<noteq> None)"
      using False by (simp add: blocked_below_def)
    ultimately show ?thesis
      using False IH by simp
  qed
qed

lemma translate_down: "translate_all bs (Vector 0 1) = map (\<lambda>b. Vector (vx b) (vy b + 1)) bs"
  by (simp add: translate_all_def add_vector_def add_xy_def)

lemma land_succeeds:
  assumes wf: "well_formed pf" and grid: "list_all (in_grid pf) vs"
    and ne: "vs \<noteq> []" and four: "length vs \<le> 4"
  shows "\<exists>pf'. land vs c pf = Inr pf' \<and> well_formed pf' \<and> psize pf' = psize pf"
proof -
  from ne obtain v where "v \<in> set vs" by (cases vs) auto
  with grid have "0 < vy (psize pf)"
    by (auto simp: list_all_iff in_grid_def)
  with wf have c: "playfieldContent pf \<noteq> []"
    by (auto simp: well_formed_def)
  from land_in_grid [OF wf grid c, of c] obtain marked rs where
    d: "distinct rs" and
    s: "set rs =
               {y \<in> vy ` set vs.
                  int (length (filter (\<lambda>cell. cell \<noteq> None) (marked ! nat y))) \<ge> vx (psize pf)}"
    and f: "length rs \<le> 4 \<longrightarrow>
               (\<exists>pf'. land vs c pf = Inr pf'
                  \<and> playfieldContent pf' =
                      replicate (length rs) (replicate (nat (vx (psize pf))) None)
                        @ nths marked (- nat ` set rs)
                  \<and> well_formed pf' \<and> psize pf' = psize pf
                  \<and> Score_add (int (length rs)) (score pf) = (None, score pf')
                  \<and> (rs = [vy (psize pf) - 1] \<longrightarrow>
                        playfieldContent pf' =
                          replicate (nat (vx (psize pf))) None # butlast marked))"
    by (elim exE conjE)
  have sub: "set rs \<subseteq> vy ` set vs"
    unfolding s by (rule Collect_restrict)
  have "length rs = card (set rs)" using d by (simp add: distinct_card)
  also have "\<dots> \<le> card (vy ` set vs)"
    using sub by (intro card_mono) simp_all
  also have "\<dots> \<le> card (set vs)" by (rule card_image_le) simp
  also have "\<dots> \<le> length vs" by (rule card_length)
  finally have "length rs \<le> 4" using four by simp
  with f show ?thesis by blast
qed

text \<open>
  The gravity step of a piece that has not landed, on a well-formed grid, with every cell
  inside the columns and at most one row above the top: if some cell is blocked below, the
  step is the call of \<open>land\<close> on the whole, unchanged position, after which the piece is
  landed; otherwise every cell moves down one row and the grid is unchanged. A cell in row
  \<^verbatim>\<open>size.y - 1\<close> is blocked below.
\<close>

lemma gravity_step_in_grid:
  "well_formed pf \<and> list_all (falling_cell pf) (position t) \<and> \<not> landed t \<longrightarrow>
     (list_ex (blocked_below pf) (position t) \<longrightarrow>
        Tetromino_do_gravity t pf =
          (case land (position t) (color_char (kind t)) pf of
             Inl e \<Rightarrow> Inl e
           | Inr pf' \<Rightarrow> Inr (t\<lparr>landed := True\<rparr>, pf')))
     \<and> (list_ex (blocked_below pf) (position t) \<and> list_all (in_grid pf) (position t)
          \<and> length (position t) \<le> 4 \<longrightarrow>
        (\<exists>pf'. land (position t) (color_char (kind t)) pf = Inr pf'
           \<and> Tetromino_do_gravity t pf = Inr (t\<lparr>landed := True\<rparr>, pf')))
     \<and> (\<not> list_ex (blocked_below pf) (position t) \<longrightarrow>
        Tetromino_do_gravity t pf =
          Inr (t\<lparr>position := map (\<lambda>b. Vector (vx b) (vy b + 1)) (position t)\<rparr>, pf))
     \<and> (list_ex (\<lambda>b. vy b = vy (psize pf) - 1) (position t) \<longrightarrow>
          list_ex (blocked_below pf) (position t))"
proof (intro impI, elim conjE)
  assume wf: "well_formed pf" and fc: "list_all (falling_cell pf) (position t)"
    and nl: "\<not> landed t"
  note gb = gravity_blocked_eq [OF wf fc]
  have blocked: "Tetromino_do_gravity t pf =
          (case land (position t) (color_char (kind t)) pf of
             Inl e \<Rightarrow> Inl e
           | Inr pf' \<Rightarrow> Inr (t\<lparr>landed := True\<rparr>, pf'))"
    if "list_ex (blocked_below pf) (position t)"
    using that nl gb by (simp add: Tetromino_do_gravity_def)
  have locked: "\<exists>pf'. land (position t) (color_char (kind t)) pf = Inr pf'
           \<and> Tetromino_do_gravity t pf = Inr (t\<lparr>landed := True\<rparr>, pf')"
    if b: "list_ex (blocked_below pf) (position t)" and g: "list_all (in_grid pf) (position t)"
      and four: "length (position t) \<le> 4"
  proof -
    from b have "position t \<noteq> []" by auto
    from land_succeeds [OF wf g this four, of "color_char (kind t)"]
    obtain pf' where "land (position t) (color_char (kind t)) pf = Inr pf'" by blast
    with blocked [OF b] show ?thesis by simp
  qed
  have free: "Tetromino_do_gravity t pf =
          Inr (t\<lparr>position := map (\<lambda>b. Vector (vx b) (vy b + 1)) (position t)\<rparr>, pf)"
    if "\<not> list_ex (blocked_below pf) (position t)"
    using that nl gb by (simp add: Tetromino_do_gravity_def translate_down)
  have bottom: "list_ex (blocked_below pf) (position t)"
    if "list_ex (\<lambda>b. vy b = vy (psize pf) - 1) (position t)"
  proof -
    from that obtain b where "b \<in> set (position t)" "vy b = vy (psize pf) - 1"
      by (auto simp: list_ex_iff)
    moreover from this have "blocked_below pf b"
      by (simp add: blocked_below_def)
    ultimately show ?thesis
      by (auto simp: list_ex_iff)
  qed
  from blocked locked free bottom
  show "(list_ex (blocked_below pf) (position t) \<longrightarrow>
        Tetromino_do_gravity t pf =
          (case land (position t) (color_char (kind t)) pf of
             Inl e \<Rightarrow> Inl e
           | Inr pf' \<Rightarrow> Inr (t\<lparr>landed := True\<rparr>, pf')))
     \<and> (list_ex (blocked_below pf) (position t) \<and> list_all (in_grid pf) (position t)
          \<and> length (position t) \<le> 4 \<longrightarrow>
        (\<exists>pf'. land (position t) (color_char (kind t)) pf = Inr pf'
           \<and> Tetromino_do_gravity t pf = Inr (t\<lparr>landed := True\<rparr>, pf')))
     \<and> (\<not> list_ex (blocked_below pf) (position t) \<longrightarrow>
        Tetromino_do_gravity t pf =
          Inr (t\<lparr>position := map (\<lambda>b. Vector (vx b) (vy b + 1)) (position t)\<rparr>, pf))
     \<and> (list_ex (\<lambda>b. vy b = vy (psize pf) - 1) (position t) \<longrightarrow>
          list_ex (blocked_below pf) (position t))"
    by blast
qed

lemma stack_accepted:
  "Tetromino_move_horizontally (- 1) (Tetromino_J main_playfield) stack_playfield = Inr J_moved
   \<and> Tetromino_rotate J_moved stack_playfield = Inr J_moved_rotated
   \<and> position J_moved_rotated = [Vector 4 0, Vector 4 (- 1), Vector 4 1, Vector 3 1]
   \<and> cell_at (playfieldContent stack_playfield) 2 3
       = Inr (Some (shift_to_gray (color_char KI)))
   \<and> cell_at (playfieldContent stack_playfield) 19 4 = Inr None"
  by code_simp

lemma stack_gravity:
  "Tetromino_do_gravity J_moved_rotated stack_playfield
     = Inr (J_moved_rotated\<lparr>landed := True\<rparr>, stack_landed_playfield)"
  by code_simp

lemma stack_landed_cells:
  "cell_at (playfieldContent stack_landed_playfield) 0 4
     = Inr (Some (shift_to_gray (color_char KJ)))
   \<and> cell_at (playfieldContent stack_landed_playfield) 19 4
       = Inr (Some (shift_to_gray (color_char KJ)))"
  by code_simp

lemma O_gravity:
  "Tetromino_do_gravity O_at_bottom main_playfield
     = Inr (O_at_bottom\<lparr>landed := True\<rparr>, O_landed_playfield)
   \<and> Tetromino_do_gravity (Tetromino_O main_playfield) main_playfield
       = Inr ((Tetromino_O main_playfield)
                \<lparr>position := [Vector 5 1, Vector 6 1, Vector 5 2, Vector 6 2]\<rparr>,
              main_playfield)"
  by code_simp

text \<open>
  Claim C3 says that a gravity step that finds a cell blocked pushes the current cells of
  the piece into the grid at the positions they have. On a playfield whose column 3 is
  occupied from row 2 down, the J piece moved left and rotated at spawn (both accepted) is
  at \<open>(4, 0)\<close>, \<open>(4, -1)\<close>, \<open>(4, 1)\<close>, \<open>(3, 1)\<close>; its cell \<open>(3, 1)\<close> is blocked by
  \<open>(3, 2)\<close>. The step lands the piece with its position unchanged, and the grid then has
  the cell \<open>(4, 19)\<close> occupied, which was free and is the position of no cell of the
  piece: the cell \<open>(4, -1)\<close> went to the bottom row. An O piece on the floor is landed
  with its four cells where they are, and an O piece at spawn moves down one row.
\<close>

theorem gravity_lands_overhang_cell_in_bottom_row:
  "Tetromino_move_horizontally (- 1) (Tetromino_J main_playfield) stack_playfield = Inr J_moved
   \<and> Tetromino_rotate J_moved stack_playfield = Inr J_moved_rotated
   \<and> position J_moved_rotated = [Vector 4 0, Vector 4 (- 1), Vector 4 1, Vector 3 1]
   \<and> cell_at (playfieldContent stack_playfield) 2 3
       = Inr (Some (shift_to_gray (color_char KI)))
   \<and> cell_at (playfieldContent stack_playfield) 19 4 = Inr None
   \<and> Tetromino_do_gravity J_moved_rotated stack_playfield
       = Inr (J_moved_rotated\<lparr>landed := True\<rparr>, stack_landed_playfield)
   \<and> cell_at (playfieldContent stack_landed_playfield) 0 4
       = Inr (Some (shift_to_gray (color_char KJ)))
   \<and> cell_at (playfieldContent stack_landed_playfield) 19 4
       = Inr (Some (shift_to_gray (color_char KJ)))
   \<and> Tetromino_do_gravity O_at_bottom main_playfield
       = Inr (O_at_bottom\<lparr>landed := True\<rparr>, O_landed_playfield)
   \<and> Tetromino_do_gravity (Tetromino_O main_playfield) main_playfield
       = Inr ((Tetromino_O main_playfield)
                \<lparr>position := [Vector 5 1, Vector 6 1, Vector 5 2, Vector 6 2]\<rparr>,
              main_playfield)"
  using stack_accepted stack_gravity stack_landed_cells O_gravity
  by blast

subsection \<open>One tick\<close>

lemma take_up_after_dx: "fst (take_up (snd (take_dx ic))) = fst (take_up ic)"
  by (simp add: take_up_def take_dx_def Let_def)

lemma take_down_after_up_dx:
  "fst (take_down (snd (take_up (snd (take_dx ic))))) = fst (take_down ic)"
  by (simp add: take_down_def take_up_def take_dx_def Let_def)

lemma process_refines_spec:
  assumes nl: "\<not> landed t"
  shows "Tetromino_process g ic t pf =
     map_option (map_sum id (\<lambda>(t', pf'). (commands_taken ic, t', pf')))
       (process_spec g (fst (take_dx ic)) (fst (take_up ic)) (fst (take_down ic)) t pf)"
proof -
  obtain dx ic1 where dx: "take_dx ic = (dx, ic1)" by (cases "take_dx ic")
  obtain up ic2 where up: "take_up ic1 = (up, ic2)" by (cases "take_up ic1")
  obtain down ic3 where down: "take_down ic2 = (down, ic3)" by (cases "take_down ic2")
  have u: "fst (take_up ic) = up"
    using take_up_after_dx [of ic] dx up by simp
  have d: "fst (take_down ic) = down"
    using take_down_after_up_dx [of ic] dx up down by simp
  have c: "commands_taken ic = ic3"
    using dx up down by (simp add: commands_taken_def)
  show ?thesis
  proof (cases "Tetromino_move_horizontally dx t pf")
    case (Inl e)
    with nl dx show ?thesis
      by (simp add: Tetromino_process_def process_spec_def)
  next
    case t1: (Inr t1)
    show ?thesis
    proof (cases "if up then Tetromino_rotate t1 pf else Inr t1")
      case (Inl e)
      with nl dx up u t1 show ?thesis
        by (simp add: Tetromino_process_def process_spec_def)
    next
      case t2: (Inr t2)
      show ?thesis
      proof (cases down)
        case True
        with nl dx up down u d c t1 t2 show ?thesis
          by (simp add: Tetromino_process_def process_spec_def
              split: option.splits sum.splits prod.splits)
      next
        case False
        with nl dx up down u d c t1 t2 show ?thesis
          by (simp add: Tetromino_process_def process_spec_def
              split: sum.splits prod.splits)
      qed
    qed
  qed
qed

lemma drop_landed_aux:
  assumes "Tetromino_drop t pf = Some r"
  shows "\<forall>t' pf'. r = Inr (t', pf') \<longrightarrow> landed t'"
proof (rule Tetromino_drop.raw_induct
    [where P = "\<lambda>t pf r. \<forall>t' pf'. r = Inr (t', pf') \<longrightarrow> landed t'", OF _ assms])
  fix drp :: "Tetromino \<Rightarrow> Playfield \<Rightarrow> (error + Tetromino \<times> Playfield) option"
  fix t pf r
  assume IH: "\<And>t pf r. drp t pf = Some r \<Longrightarrow> \<forall>t' pf'. r = Inr (t', pf') \<longrightarrow> landed t'"
    and eq: "(if landed t then Some (Inr (t, pf))
              else case Tetromino_do_gravity t pf of
                     Inl e \<Rightarrow> Some (Inl e)
                   | Inr (t', pf') \<Rightarrow> drp t' pf') = Some r"
  show "\<forall>t' pf'. r = Inr (t', pf') \<longrightarrow> landed t'"
  proof (cases "landed t")
    case True
    with eq show ?thesis by auto
  next
    case False
    show ?thesis
    proof (cases "Tetromino_do_gravity t pf")
      case (Inl e)
      with False eq show ?thesis by auto
    next
      case (Inr p)
      obtain t1 pf1 where p: "p = (t1, pf1)" by (cases p)
      with False Inr eq have "drp t1 pf1 = Some r" by simp
      then show ?thesis by (rule IH)
    qed
  qed
qed

lemma drop_landed: "Tetromino_drop t pf = Some (Inr (t', pf')) \<Longrightarrow> landed t'"
  using drop_landed_aux by blast

lemma drop_gravity_steps:
  assumes "Tetromino_drop t pf = Some r"
  shows "\<exists>n. gravity_steps n t pf = r"
proof (rule Tetromino_drop.raw_induct
    [where P = "\<lambda>t pf r. \<exists>n. gravity_steps n t pf = r", OF _ assms])
  fix drp :: "Tetromino \<Rightarrow> Playfield \<Rightarrow> (error + Tetromino \<times> Playfield) option"
  fix t pf r
  assume IH: "\<And>t pf r. drp t pf = Some r \<Longrightarrow> \<exists>n. gravity_steps n t pf = r"
    and eq: "(if landed t then Some (Inr (t, pf))
              else case Tetromino_do_gravity t pf of
                     Inl e \<Rightarrow> Some (Inl e)
                   | Inr (t', pf') \<Rightarrow> drp t' pf') = Some r"
  show "\<exists>n. gravity_steps n t pf = r"
  proof (cases "landed t")
    case True
    with eq have "gravity_steps 0 t pf = r" by simp
    then show ?thesis ..
  next
    case False
    show ?thesis
    proof (cases "Tetromino_do_gravity t pf")
      case (Inl e)
      with False eq have "r = Inl e" by simp
      with Inl have "gravity_steps (Suc 0) t pf = r" by simp
      then show ?thesis ..
    next
      case (Inr p)
      obtain t1 pf1 where p: "p = (t1, pf1)" by (cases p)
      with False Inr eq have "drp t1 pf1 = Some r" by simp
      from IH [OF this] obtain n where "gravity_steps n t1 pf1 = r" ..
      with Inr p have "gravity_steps (Suc n) t pf = r" by simp
      then show ?thesis ..
    qed
  qed
qed

lemma gravity_blocked_False_hd:
  "gravity_blocked pf (b # bs) = Inr False \<Longrightarrow> vy b + 1 < vy (psize pf)"
  by (cases "vy (psize pf) \<le> vy b + 1") simp_all

lemma do_gravity_cases:
  assumes "\<not> landed t" "Tetromino_do_gravity t pf = Inr (t', pf')"
  shows "landed t' \<or>
         (t' = t\<lparr>position := translate_all (position t) (Vector 0 1)\<rparr> \<and> pf' = pf
          \<and> gravity_blocked pf (position t) = Inr False)"
  using assms
  by (auto simp: Tetromino_do_gravity_def split: sum.splits bool.splits if_splits)

lemma drop_total_aux:
  "nat (vy (psize pf) - vy (hd (position t))) = k \<Longrightarrow> position t \<noteq> [] \<Longrightarrow>
   \<exists>r. Tetromino_drop t pf = Some r"
proof (induction k arbitrary: t rule: less_induct)
  case (less k)
  show ?case
  proof (cases "landed t")
    case True
    then show ?thesis by (simp add: Tetromino_drop.simps)
  next
    case False
    show ?thesis
    proof (cases "Tetromino_do_gravity t pf")
      case (Inl e)
      with False show ?thesis by (simp add: Tetromino_drop.simps)
    next
      case (Inr p)
      obtain t1 pf1 where p: "p = (t1, pf1)" by (cases p)
      from do_gravity_cases [OF False Inr [unfolded p]]
      show ?thesis
      proof
        assume "landed t1"
        then have "Tetromino_drop t1 pf1 = Some (Inr (t1, pf1))"
          by (simp add: Tetromino_drop.simps)
        with False Inr p show ?thesis
          by (subst Tetromino_drop.simps) simp
      next
        assume a: "t1 = t\<lparr>position := translate_all (position t) (Vector 0 1)\<rparr> \<and> pf1 = pf
          \<and> gravity_blocked pf (position t) = Inr False"
        from less.prems(2) obtain b bs where bs: "position t = b # bs"
          by (cases "position t") auto
        with a have "gravity_blocked pf (b # bs) = Inr False" by simp
        then have lt: "vy b + 1 < vy (psize pf)"
          by (rule gravity_blocked_False_hd)
        have hd1: "hd (position t1) = Vector (vx b) (vy b + 1)"
          using a bs by (simp add: translate_all_def add_vector_def add_xy_def)
        have "nat (vy (psize pf) - vy (hd (position t1))) < k"
          using less.prems(1) bs hd1 lt by simp
        moreover have "position t1 \<noteq> []"
          using a bs by (simp add: translate_all_def)
        ultimately obtain r where "Tetromino_drop t1 pf = Some r"
          using less.IH by blast
        with False Inr p a show ?thesis
          by (subst Tetromino_drop.simps) simp
      qed
    qed
  qed
qed

lemma drop_total: "position t \<noteq> [] \<Longrightarrow> \<exists>r. Tetromino_drop t pf = Some r"
  using drop_total_aux by blast


lemma gravity_steps_landed: "landed t \<Longrightarrow> gravity_steps n t pf = Inr (t, pf)"
  by (induction n) (simp_all add: Tetromino_do_gravity_def)

lemma gravity_steps_drop:
  "gravity_steps n t pf = Inr (t', pf') \<Longrightarrow> landed t' \<Longrightarrow>
   Tetromino_drop t pf = Some (Inr (t', pf'))"
proof (induction n arbitrary: t pf)
  case 0
  then show ?case by (simp add: Tetromino_drop.simps)
next
  case (Suc n)
  show ?case
  proof (cases "landed t")
    case True
    then have "gravity_steps (Suc n) t pf = Inr (t, pf)"
      by (rule gravity_steps_landed)
    with Suc.prems(1) have "t' = t" "pf' = pf"
      by simp_all
    with True show ?thesis by (simp add: Tetromino_drop.simps)
  next
    case False
    from Suc.prems(1) obtain t1 pf1 where
      g: "Tetromino_do_gravity t pf = Inr (t1, pf1)" and
      s: "gravity_steps n t1 pf1 = Inr (t', pf')"
      by (auto split: sum.splits)
    from Suc.IH [OF s Suc.prems(2)] False g show ?thesis
      by (subst Tetromino_drop.simps) simp
  qed
qed

lemma J_move: "Tetromino_move_horizontally (- 1) (Tetromino_J main_playfield) main_playfield
    = Inr ((Tetromino_J main_playfield)
             \<lparr>position := [Vector 4 0, Vector 3 0, Vector 5 0, Vector 5 1]\<rparr>)"
  by code_simp

lemma J_rotate: "Tetromino_rotate ((Tetromino_J main_playfield)
             \<lparr>position := [Vector 4 0, Vector 3 0, Vector 5 0, Vector 5 1]\<rparr>) main_playfield
    = Inr J_moved_rotated"
  by code_simp

lemma J_steps: "map_sum id fst (gravity_steps 19 J_moved_rotated main_playfield) = Inr J_dropped"
  by code_simp

lemma keys: "take_dx all_keys_pressed = (- 1, \<lparr>key_left = 2, key_right = 0, key_up = 1, key_down = 1\<rparr>)
  \<and> fst (take_up all_keys_pressed) \<and> fst (take_down all_keys_pressed)
  \<and> commands_taken all_keys_pressed = \<lparr>key_left = 2, key_right = 0, key_up = 2, key_down = 2\<rparr>
  \<and> \<not> landed (Tetromino_J main_playfield) \<and> landed J_dropped \<and> position J_moved_rotated \<noteq> []"
  by code_simp


text \<open>
  Claim C4. \<open>Tetromino_process\<close> on a landed piece changes nothing. On any other piece
  it is the contract \<open>process_spec\<close> applied to the three commands read from the input
  controller: move, then rotate, then drop, which ends the tick, then gravity only if due
  and no drop happened. A drop that returns a piece returns it landed, as the result of
  some number of gravity steps in a row; and a drop of a piece with at least one cell
  always returns.
\<close>

theorem process_command_order:
  "(landed t \<longrightarrow> Tetromino_process g ic t pf = Some (Inr (ic, t, pf)))
   \<and> (\<not> landed t \<longrightarrow>
        Tetromino_process g ic t pf =
          map_option (map_sum id (\<lambda>(t', pf'). (commands_taken ic, t', pf')))
            (process_spec g (fst (take_dx ic)) (fst (take_up ic)) (fst (take_down ic)) t pf))
   \<and> (Tetromino_drop t pf = Some (Inr (t', pf')) \<longrightarrow>
        landed t' \<and> (\<exists>n. gravity_steps n t pf = Inr (t', pf')))
   \<and> (position t \<noteq> [] \<longrightarrow> (\<exists>r. Tetromino_drop t pf = Some r))"
proof (intro conjI impI)
  assume "landed t"
  then show "Tetromino_process g ic t pf = Some (Inr (ic, t, pf))"
    by (simp add: Tetromino_process_def)
next
  assume "\<not> landed t"
  then show "Tetromino_process g ic t pf =
          map_option (map_sum id (\<lambda>(t', pf'). (commands_taken ic, t', pf')))
            (process_spec g (fst (take_dx ic)) (fst (take_up ic)) (fst (take_down ic)) t pf)"
    by (rule process_refines_spec)
next
  assume "Tetromino_drop t pf = Some (Inr (t', pf'))"
  then show "landed t'" by (rule drop_landed)
next
  assume "Tetromino_drop t pf = Some (Inr (t', pf'))"
  then show "\<exists>n. gravity_steps n t pf = Inr (t', pf')" by (rule drop_gravity_steps)
next
  assume "position t \<noteq> []"
  then show "\<exists>r. Tetromino_drop t pf = Some r" by (rule drop_total)
qed

theorem process_command_order_witness:
  "\<not> landed (Tetromino_J main_playfield)
   \<and> position J_moved_rotated \<noteq> []
   \<and> (\<exists>pf'. Tetromino_drop J_moved_rotated main_playfield = Some (Inr (J_dropped, pf'))
         \<and> landed J_dropped
         \<and> Tetromino_process True all_keys_pressed (Tetromino_J main_playfield) main_playfield
             = Some (Inr (\<lparr>key_left = 2, key_right = 0, key_up = 2, key_down = 2\<rparr>,
                          J_dropped, pf'))
         \<and> Tetromino_process True all_keys_pressed J_dropped pf'
             = Some (Inr (all_keys_pressed, J_dropped, pf')))"
proof -
  from J_steps obtain pf' where
    s: "gravity_steps 19 J_moved_rotated main_playfield = Inr (J_dropped, pf')"
    by (cases "gravity_steps 19 J_moved_rotated main_playfield") auto
  from keys have l: "landed J_dropped" by simp
  note d = gravity_steps_drop [OF s l]
  note t1 = process_command_order
    [of "Tetromino_J main_playfield" True all_keys_pressed main_playfield]
  note t2 = process_command_order [of J_dropped True all_keys_pressed pf']
  note t3 = process_command_order [of J_moved_rotated True all_keys_pressed main_playfield J_dropped pf']
  from t1 keys have "Tetromino_process True all_keys_pressed (Tetromino_J main_playfield) main_playfield =
          map_option (map_sum id (\<lambda>(t', pf'). (commands_taken all_keys_pressed, t', pf')))
            (process_spec True (fst (take_dx all_keys_pressed)) (fst (take_up all_keys_pressed))
               (fst (take_down all_keys_pressed)) (Tetromino_J main_playfield) main_playfield)"
    by blast
  also have "\<dots> = Some (Inr (\<lparr>key_left = 2, key_right = 0, key_up = 2, key_down = 2\<rparr>,
                          J_dropped, pf'))"
    using keys J_move J_rotate d by (simp add: process_spec_def)
  finally have p: "Tetromino_process True all_keys_pressed (Tetromino_J main_playfield) main_playfield
     = Some (Inr (\<lparr>key_left = 2, key_right = 0, key_up = 2, key_down = 2\<rparr>, J_dropped, pf'))" .
  from t2 l have n: "Tetromino_process True all_keys_pressed J_dropped pf'
             = Some (Inr (all_keys_pressed, J_dropped, pf'))"
    by blast
  from t3 d have "landed J_dropped" by blast
  with keys d p n show ?thesis by blast
qed

subsection \<open>The topped-out flag\<close>

lemma do_gravity_topped_out:
  "Tetromino_do_gravity t pf = Inr (t', pf') \<Longrightarrow> topped_out pf \<Longrightarrow> topped_out pf'"
  by (auto simp: Tetromino_do_gravity_def split: if_splits sum.splits bool.splits
      dest: land_topped_out_mono)

lemma drop_topped_out_aux:
  assumes "Tetromino_drop t pf = Some r"
  shows "topped_out pf \<longrightarrow> (\<forall>t' pf'. r = Inr (t', pf') \<longrightarrow> topped_out pf')"
proof (rule Tetromino_drop.raw_induct
    [where P = "\<lambda>t pf r. topped_out pf \<longrightarrow> (\<forall>t' pf'. r = Inr (t', pf') \<longrightarrow> topped_out pf')",
     OF _ assms])
  fix drp :: "Tetromino \<Rightarrow> Playfield \<Rightarrow> (error + Tetromino \<times> Playfield) option"
  fix t pf r
  assume IH: "\<And>t pf r. drp t pf = Some r \<Longrightarrow>
                topped_out pf \<longrightarrow> (\<forall>t' pf'. r = Inr (t', pf') \<longrightarrow> topped_out pf')"
    and eq: "(if landed t then Some (Inr (t, pf))
              else case Tetromino_do_gravity t pf of
                     Inl e \<Rightarrow> Some (Inl e)
                   | Inr (t', pf') \<Rightarrow> drp t' pf') = Some r"
  show "topped_out pf \<longrightarrow> (\<forall>t' pf'. r = Inr (t', pf') \<longrightarrow> topped_out pf')"
  proof (cases "landed t")
    case True
    with eq show ?thesis by auto
  next
    case False
    show ?thesis
    proof (cases "Tetromino_do_gravity t pf")
      case (Inl e)
      with False eq show ?thesis by auto
    next
      case (Inr p)
      obtain t1 pf1 where p: "p = (t1, pf1)" by (cases p)
      with False Inr eq have "drp t1 pf1 = Some r" by simp
      from IH [OF this] do_gravity_topped_out [OF Inr [unfolded p]] show ?thesis
        by blast
    qed
  qed
qed

lemma drop_topped_out:
  "Tetromino_drop t pf = Some (Inr (t', pf')) \<Longrightarrow> topped_out pf \<Longrightarrow> topped_out pf'"
  using drop_topped_out_aux by blast

lemma process_spec_topped_out:
  "process_spec g dx rotateCmd dropCmd t pf = Some (Inr (t', pf')) \<Longrightarrow> topped_out pf \<Longrightarrow>
   topped_out pf'"
  unfolding process_spec_def
  by (auto split: if_splits sum.splits dest: drop_topped_out do_gravity_topped_out)

lemma process_topped_out:
  assumes "Tetromino_process g ic t pf = Some (Inr (ic', t', pf'))" "topped_out pf"
  shows "topped_out pf'"
proof (cases "landed t")
  case True
  with assms show ?thesis by (simp add: Tetromino_process_def)
next
  case False
  let ?spec = "process_spec g (fst (take_dx ic)) (fst (take_up ic)) (fst (take_down ic)) t pf"
  from process_refines_spec [OF False, of g ic pf] assms(1)
  have m: "map_option (map_sum id (\<lambda>(t', pf'). (commands_taken ic, t', pf'))) ?spec
             = Some (Inr (ic', t', pf'))"
    by simp
  then obtain r where r: "?spec = Some r"
    and r': "map_sum id (\<lambda>(t', pf'). (commands_taken ic, t', pf')) r = Inr (ic', t', pf')"
    by (cases ?spec) auto
  from r' have "r = Inr (t', pf')"
    by (cases r) auto
  with r have "?spec = Some (Inr (t', pf'))" by simp
  then show ?thesis using assms(2) by (rule process_spec_topped_out)
qed

lemma main_iteration_topped_out:
  assumes "main_iteration g i pressed s = Some (Inr (s', game_over))" "topped_out (playfield s)"
  shows "topped_out (playfield s')"
proof -
  from assms(1) obtain ic t pf where
    p: "Tetromino_process g (inputController s) (tetromino s) (playfield s) = Some (Inr (ic, t, pf))"
    and s': "playfield s' = pf"
    by (auto simp: main_iteration_def split: option.splits sum.splits prod.splits if_splits)
  from process_topped_out [OF p assms(2)] s' show ?thesis by simp
qed

lemma step_topped_out: "step s s' \<Longrightarrow> topped_out (playfield s) \<Longrightarrow> topped_out (playfield s')"
proof (induction rule: step.induct)
  case (step_land vectors colorChar s pf')
  then show ?case by (auto dest: land_topped_out_mono)
next
  case (step_process should_do_gravity s ic' t' pf')
  then show ?case by (auto dest: process_topped_out)
next
  case (step_get_tetromino tetrominoIndex s t' bag')
  then show ?case by simp
next
  case (step_update s pressed)
  then show ?case by simp
next
  case (step_main should_do_gravity tetrominoIndex pressed s s' game_over)
  then show ?case by (auto dest: main_iteration_topped_out)
qed

lemma steps_topped_out:
  "step\<^sup>*\<^sup>* s s' \<Longrightarrow> topped_out (playfield s) \<Longrightarrow> topped_out (playfield s')"
  by (induction rule: rtranclp_induct) (auto dest: step_topped_out)

lemma Game_init_not_topped_out: "Game_init i = Inr s0 \<Longrightarrow> \<not> topped_out (playfield s0)"
  by (auto simp: Game_init_def main_playfield_def Playfield_init_def Let_def
      split: sum.splits prod.splits)

text \<open>
  Claim C9. \<open>topped_out\<close> is false in a new playfield and in the state with which the
  main loop starts. A call of \<open>land\<close> that returns leaves it true exactly when it was true
  before or the top row of the new content has an occupied cell. No sequence of steps
  (calls of \<open>land\<close>, of \<open>process\<close>, draws, input updates, whole loop iterations) turns
  it from true to false.
\<close>

theorem topped_out_never_cleared:
  "\<not> topped_out (Playfield_init sc sz)
   \<and> (Game_init i = Inr s0 \<longrightarrow> \<not> topped_out (playfield s0))
   \<and> (land vs c pf = Inr pf' \<longrightarrow>
        topped_out pf' =
          (topped_out pf \<or> list_ex (\<lambda>cell. cell \<noteq> None) (hd (playfieldContent pf'))))
   \<and> (step\<^sup>*\<^sup>* s s' \<and> topped_out (playfield s) \<longrightarrow> topped_out (playfield s'))"
  using land_topped_out_eq steps_topped_out Game_init_not_topped_out
  by (simp add: Playfield_init_def) blast

lemma land_top_cell:
  "land [Vector 0 0] (color_char KI) main_playfield = Inr topped_playfield"
  by code_simp

lemma land_on_topped:
  "land bottom_row (color_char KO) topped_playfield = Inr cleared_playfield"
  by code_simp

lemma Game_init_3:
  "Game_init 3 =
     Inr \<lparr>playfield = main_playfield, tetromino = Tetromino_O main_playfield,
          bag = [Tetromino_I main_playfield, Tetromino_J main_playfield,
                 Tetromino_L main_playfield, Tetromino_S main_playfield,
                 Tetromino_Z main_playfield, Tetromino_T main_playfield],
          inputController = InputController_init\<rparr>"
  by code_simp

theorem topped_out_never_cleared_witness:
  "(\<exists>s0. Game_init 3 = Inr s0 \<and> \<not> topped_out (playfield s0))
   \<and> land [Vector 0 0] (color_char KI) main_playfield = Inr topped_playfield
   \<and> topped_out topped_playfield
   \<and> list_ex (\<lambda>cell. cell \<noteq> None) (hd (playfieldContent topped_playfield))
   \<and> step\<^sup>*\<^sup>* topped_game (topped_game\<lparr>playfield := cleared_playfield\<rparr>)
   \<and> topped_out (playfield topped_game)
   \<and> \<not> list_ex (\<lambda>cell. cell \<noteq> None) (hd (playfieldContent cleared_playfield))
   \<and> topped_out (playfield (topped_game\<lparr>playfield := cleared_playfield\<rparr>))"
proof -
  have pg: "playfield topped_game = topped_playfield"
    by (simp add: topped_game_def)
  have "land bottom_row (color_char KO) (playfield topped_game) = Inr cleared_playfield"
    by (simp only: pg land_on_topped)
  then have st: "step topped_game (topped_game\<lparr>playfield := cleared_playfield\<rparr>)"
    by (rule step_land)
  then have sts: "step\<^sup>*\<^sup>* topped_game (topped_game\<lparr>playfield := cleared_playfield\<rparr>)"
    by (rule r_into_rtranclp)
  have t: "topped_out (playfield topped_game)"
    by (simp add: topped_game_def topped_playfield_def)
  have e: "\<not> list_ex (\<lambda>cell. cell \<noteq> None) (hd (playfieldContent cleared_playfield))"
    by code_simp
  note inst = topped_out_never_cleared
    [of Score_init "Vector 10 20" 3
        "\<lparr>playfield = main_playfield, tetromino = Tetromino_O main_playfield,
          bag = [Tetromino_I main_playfield, Tetromino_J main_playfield,
                 Tetromino_L main_playfield, Tetromino_S main_playfield,
                 Tetromino_Z main_playfield, Tetromino_T main_playfield],
          inputController = InputController_init\<rparr>"
        "[Vector 0 0]" "color_char KI" main_playfield topped_playfield
        topped_game "topped_game\<lparr>playfield := cleared_playfield\<rparr>"]
  from inst Game_init_3 have g: "\<exists>s0. Game_init 3 = Inr s0 \<and> \<not> topped_out (playfield s0)"
    by blast
  from inst land_top_cell
  have l: "topped_out topped_playfield =
          (topped_out main_playfield \<or>
           list_ex (\<lambda>cell. cell \<noteq> None) (hd (playfieldContent topped_playfield)))"
    by blast
  have "\<not> topped_out main_playfield"
    by (simp add: main_playfield_def Playfield_init_def)
  moreover have "topped_out topped_playfield" by (simp add: topped_playfield_def)
  ultimately have o: "list_ex (\<lambda>cell. cell \<noteq> None) (hd (playfieldContent topped_playfield))"
    using l by blast
  from inst sts t have "topped_out (playfield (topped_game\<lparr>playfield := cleared_playfield\<rparr>))"
    by blast
  with g land_top_cell o sts t e \<open>topped_out topped_playfield\<close> show ?thesis
    by blast
qed

subsection \<open>Cells above the top of the grid\<close>

lemma I_steps:
  "gravity_steps 17 (Tetromino_I main_playfield) main_playfield = Inr (I_dropped, I_column)"
  by code_simp

lemma I_drop:
  "Tetromino_drop (Tetromino_I main_playfield) main_playfield = Some (Inr (I_dropped, I_column))"
  by (rule gravity_steps_drop [OF I_steps]) (simp add: I_dropped_def)

lemma J_spawn_rotate_free:
  "Tetromino_rotate (Tetromino_J main_playfield) main_playfield = Inr J_rotated"
  by code_simp

lemma I_column_cells:
  "cell_at (playfieldContent I_column) 0 5 = Inr None
   \<and> cell_at (playfieldContent I_column) 1 5 = Inr None
   \<and> cell_at (playfieldContent I_column) 1 4 = Inr None
   \<and> cell_at (playfieldContent I_column) (- 1) 5 = Inr (Some (shift_to_gray (color_char KI)))"
  by code_simp

lemma J_spawn_rotate_obstructed:
  "Tetromino_rotate (Tetromino_J main_playfield) I_column = Inr (Tetromino_J main_playfield)"
  by code_simp

lemma J_moved_rotate:
  "Tetromino_move_horizontally (- 1) (Tetromino_J main_playfield) I_column = Inr J_moved
   \<and> Tetromino_rotate J_moved I_column = Inr J_moved_rotated"
  by code_simp

lemma J_move_back:
  "Tetromino_move_horizontally 1 J_moved_rotated I_column = Inr J_moved_rotated
   \<and> Tetromino_move_horizontally 1 J_moved_rotated main_playfield = Inr J_rotated"
  by code_simp

lemma rotate_at_floor_raises:
  "gravity_steps 17
     ((Tetromino_I main_playfield)
        \<lparr>position := get_rotated90_around_anchor (position (Tetromino_I main_playfield))\<rparr>)
     main_playfield
     = Inr (I_flat_on_floor, main_playfield)
   \<and> Tetromino_rotate I_flat_on_floor main_playfield = Inl IndexError"
  by code_simp

text \<open>
  Claim C1 says that move and rotate treat a cell with negative y as never occupied, so
  that a piece overhanging the top is not obstructed by that cell. The code subscripts
  the grid with the negative y, which reads the rows from the bottom. After the first I
  piece was dropped in column 5, the next J piece cannot rotate at spawn: its rotated
  cells in rows 0 and 1 are free, and the test of its cell \<open>(5, -1)\<close> reads the occupied
  cell \<open>(5, 19)\<close>. On the empty playfield the same rotation is accepted. Likewise the
  J piece moved left and rotated cannot move back right, although it can on the empty
  playfield.
\<close>

theorem negative_y_cell_obstructed:
  "Tetromino_drop (Tetromino_I main_playfield) main_playfield = Some (Inr (I_dropped, I_column))
   \<and> Tetromino_rotate (Tetromino_J main_playfield) main_playfield = Inr J_rotated
   \<and> cell_at (playfieldContent I_column) 0 5 = Inr None
   \<and> cell_at (playfieldContent I_column) 1 5 = Inr None
   \<and> cell_at (playfieldContent I_column) 1 4 = Inr None
   \<and> cell_at (playfieldContent I_column) (- 1) 5 = Inr (Some (shift_to_gray (color_char KI)))
   \<and> Tetromino_rotate (Tetromino_J main_playfield) I_column = Inr (Tetromino_J main_playfield)
   \<and> Tetromino_move_horizontally (- 1) (Tetromino_J main_playfield) I_column = Inr J_moved
   \<and> Tetromino_rotate J_moved I_column = Inr J_moved_rotated
   \<and> Tetromino_move_horizontally 1 J_moved_rotated main_playfield = Inr J_rotated
   \<and> Tetromino_move_horizontally 1 J_moved_rotated I_column = Inr J_moved_rotated"
  using I_drop J_spawn_rotate_free I_column_cells J_spawn_rotate_obstructed J_moved_rotate
    J_move_back
  by blast

end
